theory Spec2Isabelle
  imports Main
begin

section \<open>Data model (package model)\<close>

text \<open>
  Modelled from the spec: the declaration of \<^verbatim>\<open>model.TaskStatus\<close> is not part of the
  available sources. The status domain is the one listed in the data model of the
  specification; \<^verbatim>\<open>TaskStatusNotExist\<close> is the value \<^verbatim>\<open>diff\<close> uses for an absent side.
\<close>

datatype TaskStatus =
    TaskStatusNotExist
  | TaskStatusWaitRunning
  | TaskStatusRunning
  | TaskStatusWaitPaused
  | TaskStatusPaused
  | TaskStatusWaitResume
  | TaskStatusWaitStop
  | TaskStatusStop
  | TaskStatusSuccess
  | TaskStatusFailed

text \<open>
  Modelled from the spec: the bodies of \<^verbatim>\<open>TaskStatus.IsFinalStatus\<close> and
  \<^verbatim>\<open>TaskStatus.IsAutoFinished\<close> are not part of the available sources.
  FinalStatus = {Stop, Success, Failed}; AutoFinished = {Success, Failed}.
\<close>

definition IsFinalStatus :: "TaskStatus \<Rightarrow> bool" where
  "IsFinalStatus s = (s = TaskStatusStop \<or> s = TaskStatusSuccess \<or> s = TaskStatusFailed)"

definition IsAutoFinished :: "TaskStatus \<Rightarrow> bool" where
  "IsAutoFinished s = (s = TaskStatusSuccess \<or> s = TaskStatusFailed)"

text \<open>
  \<^verbatim>\<open>model.Task\<close> (core/model/task.go). The three string maps are association lists and the
  two time stamps are integers; \<^verbatim>\<open>Msg\<close> is the field \<^verbatim>\<open>handleException\<close> fills in.
  A \<^verbatim>\<open>*model.Task\<close> is a \<open>Task option\<close>, \<open>None\<close> being the nil pointer.
\<close>

record Task =
  ID :: int
  TaskKey :: string
  BizID :: string
  BizType :: string
  Type :: string
  Payload :: string
  Labels :: "(string \<times> string) list"
  Staints :: "(string \<times> string) list"
  Extra :: "(string \<times> string) list"
  Status :: TaskStatus
  Msg :: string
  CreatedAt :: int
  UpdatedAt :: int

text \<open>Go's zero value of the struct: what a composite literal leaves in the fields it omits.\<close>

definition zeroTask :: Task where
  "zeroTask = \<lparr> ID = 0, TaskKey = [], BizID = [], BizType = [], Type = [], Payload = [],
      Labels = [], Staints = [], Extra = [], Status = TaskStatusNotExist, Msg = [],
      CreatedAt = 0, UpdatedAt = 0 \<rparr>"

text \<open>
  Modelled from the spec: \<^verbatim>\<open>model.Change\<close>, \<^verbatim>\<open>model.ChangeType\<close> and
  \<^verbatim>\<open>Change.IsException\<close> are not part of the available sources. A change is
  \<^verbatim>\<open>{TaskKey, TaskType, ChangeType, Task}\<close>; its fields carry the suffix \<open>C\<close> here because
  \<open>TaskKey\<close> is already the field of \<open>Task\<close>. The exception change types are
  \<^verbatim>\<open>ExceptionFinish\<close> and \<^verbatim>\<open>ExceptionIgnore\<close>. \<open>ChangeTypeZero\<close> is Go's zero value of the
  type, which the literal \<^verbatim>\<open>model.Change{TaskKey: key}\<close> leaves in the field.
\<close>

datatype ChangeType =
    ChangeTypeZero
  | ChangeCreate
  | ChangePause
  | ChangeResume
  | ChangeStop
  | ChangeExceptionFinish
  | ChangeExceptionIgnore

record Change =
  TaskKeyC :: string
  TaskTypeC :: string
  ChangeTypeC :: ChangeType
  TaskC :: "Task option"

definition IsException :: "Change \<Rightarrow> bool" where
  "IsException c =
     (ChangeTypeC c = ChangeExceptionFinish \<or> ChangeTypeC c = ChangeExceptionIgnore)"

text \<open>
  Errors are values. \<open>ErrExternal\<close> is an error handed back by a collaborator (the
  recorder, the trigger); \<open>ErrUnknownChangeType\<close> is the error of \<^verbatim>\<open>GetChangeType\<close>.
  A Go runtime panic is a value of its own type.
\<close>

datatype error =
    ErrAlreadyRunning
  | ErrUnknownChangeType TaskStatus TaskStatus
  | ErrExternal string

datatype panic = NilPointerDereference

text \<open>
  Modelled from the spec: \<^verbatim>\<open>model.GetChangeType(realStatus, wantStatus)\<close> is not part of the
  available sources. The table below is the transition table of the Differ in the
  specification, rows being the real status and columns the want status; every pair that
  is absent from it is an error. The functions of the informer take the lookup as a
  parameter \<open>gct\<close>, so that what is proved of them holds for any table.
\<close>

definition changeTable :: "((TaskStatus \<times> TaskStatus) \<times> ChangeType) list" where
  "changeTable =
    [ ((TaskStatusNotExist, TaskStatusWaitRunning), ChangeCreate),
      ((TaskStatusNotExist, TaskStatusWaitStop), ChangeStop),
      ((TaskStatusRunning, TaskStatusWaitPaused), ChangePause),
      ((TaskStatusRunning, TaskStatusWaitStop), ChangeStop),
      ((TaskStatusRunning, TaskStatusNotExist), ChangeExceptionFinish),
      ((TaskStatusPaused, TaskStatusWaitResume), ChangeResume),
      ((TaskStatusPaused, TaskStatusWaitStop), ChangeStop),
      ((TaskStatusPaused, TaskStatusNotExist), ChangeExceptionFinish),
      ((TaskStatusStop, TaskStatusWaitRunning), ChangeExceptionIgnore),
      ((TaskStatusStop, TaskStatusWaitPaused), ChangeExceptionIgnore),
      ((TaskStatusStop, TaskStatusWaitResume), ChangeExceptionIgnore),
      ((TaskStatusSuccess, TaskStatusWaitRunning), ChangeExceptionIgnore),
      ((TaskStatusSuccess, TaskStatusWaitPaused), ChangeExceptionIgnore),
      ((TaskStatusSuccess, TaskStatusWaitResume), ChangeExceptionIgnore),
      ((TaskStatusFailed, TaskStatusWaitRunning), ChangeExceptionIgnore),
      ((TaskStatusFailed, TaskStatusWaitPaused), ChangeExceptionIgnore),
      ((TaskStatusFailed, TaskStatusWaitResume), ChangeExceptionIgnore) ]"

type_synonym changeTypeLookup = "TaskStatus \<Rightarrow> TaskStatus \<Rightarrow> error + ChangeType"

definition GetChangeType :: changeTypeLookup where
  "GetChangeType realStatus wantStatus =
     (case map_of changeTable (realStatus, wantStatus) of
        Some ct \<Rightarrow> Inr ct
      | None \<Rightarrow> Inl (ErrUnknownChangeType realStatus wantStatus))"

section \<open>The differ (infomer.go, diff)\<close>

record taskPair =
  want :: "Task option"
  real :: "Task option"

text \<open>Lines written by the loggers; each constructor is one call site.\<close>

datatype logline =
    LogLoadTaskPairsFailed error
  | LogDiffFailed string TaskStatus TaskStatus error
  | LogFinishTaskFailed string error
  | LogUpdateTaskFailed string error
  | LogEnqueueChange Change
  | LogMonitorChanged string TaskStatus
  | LogReceivedNilTask

text \<open>
  The statuses and the task of a change, as the head of the loop body of \<^verbatim>\<open>diff\<close>
  computes them: both statuses start as \<^verbatim>\<open>TaskStatusNotExist\<close>, \<^verbatim>\<open>changeTask\<close> starts as
  nil, the real side is read first and the want side overrides \<^verbatim>\<open>changeTask\<close>.
\<close>

definition realStatusOf :: "taskPair \<Rightarrow> TaskStatus" where
  "realStatusOf pair = (case real pair of Some r \<Rightarrow> Status r | None \<Rightarrow> TaskStatusNotExist)"

definition wantStatusOf :: "taskPair \<Rightarrow> TaskStatus" where
  "wantStatusOf pair = (case want pair of Some w \<Rightarrow> Status w | None \<Rightarrow> TaskStatusNotExist)"

definition changeTaskOf :: "taskPair \<Rightarrow> Task option" where
  "changeTaskOf pair = (case want pair of Some w \<Rightarrow> Some w | None \<Rightarrow> real pair)"

text \<open>
  The loop of \<^verbatim>\<open>diff\<close> with its accumulator \<^verbatim>\<open>changes\<close>, and the lines it logs. On an
  error of the lookup the log call reads \<^verbatim>\<open>want.TaskKey\<close>: with \<^verbatim>\<open>want == nil\<close> that is a
  nil pointer dereference, which panics. The change is built from \<^verbatim>\<open>changeTask\<close>, which is
  dereferenced as well.
\<close>

fun diffLoop ::
  "changeTypeLookup \<Rightarrow> taskPair list \<Rightarrow> Change list \<Rightarrow> logline list
     \<Rightarrow> panic + (Change list \<times> logline list)" where
  "diffLoop gct [] changes logs = Inr (changes, logs)"
| "diffLoop gct (pair # rest) changes logs =
     (if realStatusOf pair = wantStatusOf pair then diffLoop gct rest changes logs
      else
        (case gct (realStatusOf pair) (wantStatusOf pair) of
           Inl err \<Rightarrow>
             (case want pair of
                None \<Rightarrow> Inl NilPointerDereference
              | Some w \<Rightarrow>
                  diffLoop gct rest changes
                    (logs @ [LogDiffFailed (TaskKey w) (realStatusOf pair) (wantStatusOf pair) err]))
         | Inr changeType \<Rightarrow>
             (case changeTaskOf pair of
                None \<Rightarrow> Inl NilPointerDereference
              | Some t \<Rightarrow>
                  diffLoop gct rest
                    (changes @ [\<lparr> TaskKeyC = TaskKey t, TaskTypeC = Type t,
                                  ChangeTypeC = changeType, TaskC = Some t \<rparr>])
                    logs)))"

definition diff :: "changeTypeLookup \<Rightarrow> taskPair list \<Rightarrow> panic + (Change list \<times> logline list)" where
  "diff gct taskPairs = diffLoop gct taskPairs [] []"

section \<open>Collaborators (dependency.go and the queue)\<close>

text \<open>
  The \<^verbatim>\<open>recorder\<close> interface of dependency.go, as far as the informer's loops call it. An
  implementation is a table of methods over a state \<open>'r\<close> of its own; each method hands
  back the new state with its result. The context argument is left out.
\<close>

record 'r recorder =
  UpdateTask :: "'r \<Rightarrow> Task \<Rightarrow> error option \<times> 'r"
  FinishTask :: "'r \<Rightarrow> Task \<Rightarrow> error option \<times> 'r"
  BatchGetWantTask :: "'r \<Rightarrow> string list \<Rightarrow> (error + Task list) \<times> 'r"

text \<open>
  The field \<^verbatim>\<open>changeQueue\<close> has the interface type \<^verbatim>\<open>queue.TypedInterface[model.Change]\<close>;
  the loops call \<^verbatim>\<open>Add\<close>, \<^verbatim>\<open>Done\<close> and \<^verbatim>\<open>Exist\<close>. An implementation is a table of methods
  over a state \<open>'q\<close>.
\<close>

record 'q TypedInterface =
  Add :: "'q \<Rightarrow> Change \<Rightarrow> bool \<times> 'q"
  Done :: "'q \<Rightarrow> Change \<Rightarrow> 'q"
  Exist :: "'q \<Rightarrow> Change \<Rightarrow> bool"

text \<open>
  Modelled from the spec: the package \<^verbatim>\<open>internal/queue\<close> is not part of the available
  sources. This is the ChangeQueue of the specification: items are equal when their task
  keys are; \<^verbatim>\<open>Add\<close> is a no-op answering true on a pending key, marks an in-flight key
  dirty, and appends otherwise; \<^verbatim>\<open>Get\<close> moves the head from pending to in-flight;
  \<^verbatim>\<open>Done\<close> drops the in-flight mark and re-enqueues a dirty item; \<^verbatim>\<open>Exist\<close> holds iff
  the key is pending or in-flight. After shutdown \<^verbatim>\<open>Add\<close> is a no-op.
\<close>

record ChangeQueue =
  pending :: "Change list"
  inflight :: "string list"
  dirtyItems :: "Change list"
  shuttingDown :: bool

definition emptyQueue :: ChangeQueue where
  "emptyQueue = \<lparr> pending = [], inflight = [], dirtyItems = [], shuttingDown = False \<rparr>"

definition queueExist :: "ChangeQueue \<Rightarrow> Change \<Rightarrow> bool" where
  "queueExist q c =
     (TaskKeyC c \<in> set (map TaskKeyC (pending q)) \<or> TaskKeyC c \<in> set (inflight q))"

definition queueAdd :: "ChangeQueue \<Rightarrow> Change \<Rightarrow> bool \<times> ChangeQueue" where
  "queueAdd q c =
     (if shuttingDown q then (False, q)
      else if TaskKeyC c \<in> set (map TaskKeyC (pending q)) then (True, q)
      else if TaskKeyC c \<in> set (inflight q) then
        (True,
         if TaskKeyC c \<in> set (map TaskKeyC (dirtyItems q)) then q
         else q\<lparr> dirtyItems := dirtyItems q @ [c] \<rparr>)
      else (False, q\<lparr> pending := pending q @ [c] \<rparr>))"

definition queueGet :: "ChangeQueue \<Rightarrow> Change option \<times> ChangeQueue" where
  "queueGet q =
     (case pending q of
        [] \<Rightarrow> (None, q)
      | c # cs \<Rightarrow> (Some c, q\<lparr> pending := cs, inflight := inflight q @ [TaskKeyC c] \<rparr>))"

definition queueDone :: "ChangeQueue \<Rightarrow> Change \<Rightarrow> ChangeQueue" where
  "queueDone q c =
     q\<lparr> inflight := filter (\<lambda>k. k \<noteq> TaskKeyC c) (inflight q),
        pending := pending q @ filter (\<lambda>d. TaskKeyC d = TaskKeyC c) (dirtyItems q),
        dirtyItems := filter (\<lambda>d. TaskKeyC d \<noteq> TaskKeyC c) (dirtyItems q) \<rparr>"

definition changeQueueImpl :: "ChangeQueue TypedInterface" where
  "changeQueueImpl = \<lparr> Add = queueAdd, Done = queueDone, Exist = queueExist \<rparr>"

section \<open>The indexer (dependency.go, Indexer)\<close>

text \<open>
  The items of the cache are the real tasks: dependency.go names their type
  \<^verbatim>\<open>model.TaskExecResult\<close> where infomer.go receives them as \<^verbatim>\<open>*model.Task\<close>; both read the
  task key and the status, and they are tasks here.
  The cache is read through \<^verbatim>\<open>cache.List()\<close> only; the list it returns is the snapshot
  \<open>list\<close> below, in whatever order the cache yields it. \<^verbatim>\<open>ListTasks\<close> answers the whole list for an empty \<^verbatim>\<open>keys\<close>, and otherwise
  appends an item once for every key equal to its task key (outer loop over the list,
  inner loop over the keys).
\<close>

definition ListTasks :: "Task list \<Rightarrow> string list \<Rightarrow> Task list" where
  "ListTasks list keys =
     (if length keys = 0 then list
      else concat (map (\<lambda>item. map (\<lambda>key. item) (filter (\<lambda>key. TaskKey item = key) keys)) list))"

definition ListTaskKeys :: "Task list \<Rightarrow> string list" where
  "ListTaskKeys list = map TaskKey list"

text \<open>
  The closure \<^verbatim>\<open>recycleCondition\<close> of \<^verbatim>\<open>initCache\<close>. A \<^verbatim>\<open>time.Duration\<close> is a number of
  nanoseconds; \<^verbatim>\<open>time.Minute\<close> is \<open>60 * 10^9\<close> of them. The debug line it logs is left out.
\<close>

definition Minute :: int where
  "Minute = 60 * 1000 * 1000 * 1000"

definition recycleCondition :: "Task option \<Rightarrow> int \<Rightarrow> bool" where
  "recycleCondition task afterSetDuration =
     (case task of
        None \<Rightarrow> True
      | Some t \<Rightarrow> IsFinalStatus (Status t) \<and> afterSetDuration > Minute)"

text \<open>
  Modelled from the spec: the package \<^verbatim>\<open>internal/cache\<close> is not part of the available
  sources. \<^verbatim>\<open>Set\<close> overwrites the entry of the key, or adds one.
\<close>

fun cacheSet :: "Task list \<Rightarrow> string \<Rightarrow> Task \<Rightarrow> Task list" where
  "cacheSet [] key c = [c]"
| "cacheSet (x # xs) key c = (if TaskKey x = key then c # xs else x # cacheSet xs key c)"

section \<open>The informer (infomer.go)\<close>

text \<open>
  What the informer does to the world is recorded, in order: every call of the recorder
  with its result, every \<^verbatim>\<open>Add\<close> and \<^verbatim>\<open>Done\<close> of the queue, every line logged.
\<close>

datatype event =
    RecUpdateTask Task "error option"
  | RecFinishTask Task "error option"
  | RecBatchGetWantTask "string list" "error option"
  | QueueAdd Change bool
  | QueueDone Change
  | Logged logline

text \<open>
  The state of an \<^verbatim>\<open>Infomer\<close>: the flag \<^verbatim>\<open>running\<close>, the cache of its indexer, the states of
  the recorder and of the change queue behind their interfaces, and the record of events.
  A tick of the enqueue loop reads the queue and the cache as they are when it starts: the
  monitor goroutine takes its steps between ticks, not within one.
\<close>

record ('r, 'q) Infomer =
  running :: bool
  indexerCache :: "Task list"
  recorderSt :: 'r
  changeQueueSt :: 'q
  events :: "event list"

record triggerInfo =
  taskKeys :: "string list"
  resync :: bool

text \<open>The calls through the two interfaces, each leaving its event.\<close>

definition callUpdateTask ::
  "'r recorder \<Rightarrow> Task \<Rightarrow> ('r, 'q) Infomer \<Rightarrow> error option \<times> ('r, 'q) Infomer" where
  "callUpdateTask rec t i =
     (case UpdateTask rec (recorderSt i) t of
        (err, r') \<Rightarrow> (err, i\<lparr> recorderSt := r', events := events i @ [RecUpdateTask t err] \<rparr>))"

definition callFinishTask ::
  "'r recorder \<Rightarrow> Task \<Rightarrow> ('r, 'q) Infomer \<Rightarrow> error option \<times> ('r, 'q) Infomer" where
  "callFinishTask rec t i =
     (case FinishTask rec (recorderSt i) t of
        (err, r') \<Rightarrow> (err, i\<lparr> recorderSt := r', events := events i @ [RecFinishTask t err] \<rparr>))"

definition errorOf :: "error + 'a \<Rightarrow> error option" where
  "errorOf res = (case res of Inl e \<Rightarrow> Some e | Inr _ \<Rightarrow> None)"

definition callBatchGetWantTask ::
  "'r recorder \<Rightarrow> string list \<Rightarrow> ('r, 'q) Infomer \<Rightarrow> (error + Task list) \<times> ('r, 'q) Infomer" where
  "callBatchGetWantTask rec keys i =
     (case BatchGetWantTask rec (recorderSt i) keys of
        (res, r') \<Rightarrow>
          (res, i\<lparr> recorderSt := r', events := events i @ [RecBatchGetWantTask keys (errorOf res)] \<rparr>))"

definition callAdd ::
  "'q TypedInterface \<Rightarrow> Change \<Rightarrow> ('r, 'q) Infomer \<Rightarrow> bool \<times> ('r, 'q) Infomer" where
  "callAdd cq c i =
     (case Add cq (changeQueueSt i) c of
        (exist, q') \<Rightarrow> (exist, i\<lparr> changeQueueSt := q', events := events i @ [QueueAdd c exist] \<rparr>))"

definition callDone :: "'q TypedInterface \<Rightarrow> Change \<Rightarrow> ('r, 'q) Infomer \<Rightarrow> ('r, 'q) Infomer" where
  "callDone cq c i =
     i\<lparr> changeQueueSt := Done cq (changeQueueSt i) c, events := events i @ [QueueDone c] \<rparr>"

definition logLine :: "logline \<Rightarrow> ('r, 'q) Infomer \<Rightarrow> ('r, 'q) Infomer" where
  "logLine l i = i\<lparr> events := events i @ [Logged l] \<rparr>"

text \<open>The literal \<^verbatim>\<open>model.Change{TaskKey: key}\<close>, which masks a change by its key.\<close>

definition keyChange :: "string \<Rightarrow> Change" where
  "keyChange key = \<lparr> TaskKeyC = key, TaskTypeC = [], ChangeTypeC = ChangeTypeZero, TaskC = None \<rparr>"

text \<open>
  \<^verbatim>\<open>lo.KeyBy\<close> with the task key as the key: the items are stored one after the other, a later
  item replacing an earlier one of the same key.
\<close>

definition KeyBy :: "Task list \<Rightarrow> (string \<rightharpoonup> Task)" where
  "KeyBy ts = fold (\<lambda>t m. m(TaskKey t \<mapsto> t)) ts Map.empty"

text \<open>
  \<^verbatim>\<open>loadTaskPairs\<close>: an error of \<^verbatim>\<open>BatchGetWantTask\<close> is returned at once; otherwise every
  want task is paired with the cached real task of its key (nil when there is none), and
  every real task whose key no want task has is paired with a nil want.
\<close>

definition loadTaskPairs ::
  "'r recorder \<Rightarrow> string list \<Rightarrow> string list \<Rightarrow> ('r, 'q) Infomer
     \<Rightarrow> (error + taskPair list) \<times> ('r, 'q) Infomer" where
  "loadTaskPairs rec wantTaskKeys realTaskKeys i =
     (case callBatchGetWantTask rec wantTaskKeys i of
        (Inl err, i') \<Rightarrow> (Inl err, i')
      | (Inr wantTasks, i') \<Rightarrow>
          (let realTasks = ListTasks (indexerCache i') realTaskKeys;
               realMap = KeyBy realTasks;
               wantMap = KeyBy wantTasks
           in (Inr (map (\<lambda>w. \<lparr> want = Some w, real = realMap (TaskKey w) \<rparr>) wantTasks
                    @ map (\<lambda>r. \<lparr> want = None, real = Some r \<rparr>)
                        (filter (\<lambda>r. wantMap (TaskKey r) = None) realTasks)),
               i')))"

text \<open>
  Step 1 of \<^verbatim>\<open>loadTaskPairsThreadSafe\<close>: the keys of the trigger for which \<^verbatim>\<open>Exist\<close> holds.
  Step 2: the want keys are the trigger's, the real keys are the trigger's or, on a
  resync, the keys of the cache; when there is a processing key, both lists lose the
  processing keys.
\<close>

definition processingKeys :: "'q TypedInterface \<Rightarrow> 'q \<Rightarrow> string list \<Rightarrow> string list" where
  "processingKeys cq q keys = filter (\<lambda>key. Exist cq q (keyChange key)) keys"

definition selectTaskKeys ::
  "'q TypedInterface \<Rightarrow> triggerInfo \<Rightarrow> ('r, 'q) Infomer \<Rightarrow> string list \<times> string list" where
  "selectTaskKeys cq info i =
     (let processing = processingKeys cq (changeQueueSt i) (taskKeys info);
          wantTaskKeys = taskKeys info;
          realTaskKeys = (if resync info then ListTaskKeys (indexerCache i) else taskKeys info)
      in if length processing > 0
         then (filter (\<lambda>key. key \<notin> set processing) wantTaskKeys,
               filter (\<lambda>key. key \<notin> set processing) realTaskKeys)
         else (wantTaskKeys, realTaskKeys))"

text \<open>Step 3: a pair is dropped when its want, or its real, is present and auto-finished.\<close>

definition pairAutoFinished :: "taskPair \<Rightarrow> bool" where
  "pairAutoFinished pair =
     ((case want pair of Some w \<Rightarrow> IsAutoFinished (Status w) | None \<Rightarrow> False)
      \<or> (case real pair of Some r \<Rightarrow> IsAutoFinished (Status r) | None \<Rightarrow> False))"

fun filterFinished :: "taskPair list \<Rightarrow> taskPair list \<Rightarrow> taskPair list" where
  "filterFinished [] ret = ret"
| "filterFinished (pair # rest) ret =
     (if pairAutoFinished pair then filterFinished rest ret
      else filterFinished rest (ret @ [pair]))"

definition loadTaskPairsThreadSafe ::
  "'r recorder \<Rightarrow> 'q TypedInterface \<Rightarrow> triggerInfo \<Rightarrow> ('r, 'q) Infomer
     \<Rightarrow> (error + taskPair list) \<times> ('r, 'q) Infomer" where
  "loadTaskPairsThreadSafe rec cq info i =
     (case selectTaskKeys cq info i of
        (wantTaskKeys, realTaskKeys) \<Rightarrow>
          (case loadTaskPairs rec wantTaskKeys realTaskKeys i of
             (Inl err, i') \<Rightarrow> (Inl err, i')
           | (Inr taskPairs, i') \<Rightarrow> (Inr (filterFinished taskPairs []), i')))"

text \<open>
  \<^verbatim>\<open>handleException\<close>: a change that is no exception is kept; an exception-finish change
  makes one call of \<^verbatim>\<open>FinishTask\<close> with a fresh task (key, status Stop, message), whose
  error is logged and nothing more; every exception change is dropped.
\<close>

definition exceptionTask :: "Change \<Rightarrow> Task" where
  "exceptionTask c =
     zeroTask\<lparr> TaskKey := TaskKeyC c, Status := TaskStatusStop, Msg := ''exception finish'' \<rparr>"

fun handleExceptionLoop ::
  "'r recorder \<Rightarrow> Change list \<Rightarrow> Change list \<Rightarrow> ('r, 'q) Infomer
     \<Rightarrow> Change list \<times> ('r, 'q) Infomer" where
  "handleExceptionLoop rec [] normalChanges i = (normalChanges, i)"
| "handleExceptionLoop rec (c # cs) normalChanges i =
     (if \<not> IsException c then handleExceptionLoop rec cs (normalChanges @ [c]) i
      else if ChangeTypeC c = ChangeExceptionFinish then
        (case callFinishTask rec (exceptionTask c) i of
           (Some err, i') \<Rightarrow>
             handleExceptionLoop rec cs normalChanges
               (logLine (LogFinishTaskFailed (TaskKeyC c) err) i')
         | (None, i') \<Rightarrow> handleExceptionLoop rec cs normalChanges i')
      else handleExceptionLoop rec cs normalChanges i)"

definition handleException ::
  "'r recorder \<Rightarrow> Change list \<Rightarrow> ('r, 'q) Infomer \<Rightarrow> Change list \<times> ('r, 'q) Infomer" where
  "handleException rec cs i = handleExceptionLoop rec cs [] i"

text \<open>The last loop of a tick: every change is added, and logged when it was not there.\<close>

fun enqueueChanges ::
  "'q TypedInterface \<Rightarrow> Change list \<Rightarrow> ('r, 'q) Infomer \<Rightarrow> ('r, 'q) Infomer" where
  "enqueueChanges cq [] i = i"
| "enqueueChanges cq (change # rest) i =
     (case callAdd cq change i of
        (exist, i') \<Rightarrow>
          enqueueChanges cq rest (if \<not> exist then logLine (LogEnqueueChange change) i' else i'))"

text \<open>
  One turn of the loop of \<^verbatim>\<open>enqueueIfTaskChange\<close> for a trigger received from the channel.
  The lines \<^verbatim>\<open>diff\<close> logs are written while it runs, that is before \<^verbatim>\<open>handleException\<close>.
  A panic ends the goroutine and, not being recovered, the process.
\<close>

definition enqueueTick ::
  "changeTypeLookup \<Rightarrow> 'r recorder \<Rightarrow> 'q TypedInterface \<Rightarrow> triggerInfo \<Rightarrow> ('r, 'q) Infomer
     \<Rightarrow> panic + ('r, 'q) Infomer" where
  "enqueueTick gct rec cq info i =
     (case loadTaskPairsThreadSafe rec cq info i of
        (Inl err, i1) \<Rightarrow> Inr (logLine (LogLoadTaskPairsFailed err) i1)
      | (Inr taskPairs, i1) \<Rightarrow>
          (case diff gct taskPairs of
             Inl p \<Rightarrow> Inl p
           | Inr (changes, logs) \<Rightarrow>
               (case handleException rec changes (fold logLine logs i1) of
                  (changes', i2) \<Rightarrow> Inr (enqueueChanges cq changes' i2))))"

text \<open>
  \<^verbatim>\<open>enqueueIfTaskChange\<close> over the triggers the channel delivers before it is closed or the
  context is cancelled.
\<close>

fun enqueueIfTaskChange ::
  "changeTypeLookup \<Rightarrow> 'r recorder \<Rightarrow> 'q TypedInterface \<Rightarrow> triggerInfo list \<Rightarrow> ('r, 'q) Infomer
     \<Rightarrow> panic + ('r, 'q) Infomer" where
  "enqueueIfTaskChange gct rec cq [] i = Inr i"
| "enqueueIfTaskChange gct rec cq (info # ch) i =
     (case enqueueTick gct rec cq info i of
        Inl p \<Rightarrow> Inl p
      | Inr i' \<Rightarrow> enqueueIfTaskChange gct rec cq ch i')"

section \<open>The monitor callback and Run (infomer.go)\<close>

text \<open>
  Modelled from the spec: the package \<^verbatim>\<open>pkg/util/retry\<close> is not part of the available
  sources. \<^verbatim>\<open>retry.Do\<close> calls the function until it succeeds, for a bounded number of
  attempts: one attempt and at most \<open>retries\<close> more. It returns nil on a success and the
  last error when the attempts are used up. The waiting between attempts is not modelled.
\<close>

fun retryDo :: "nat \<Rightarrow> ('s \<Rightarrow> error option \<times> 's) \<Rightarrow> 's \<Rightarrow> error option \<times> 's" where
  "retryDo 0 f s = f s"
| "retryDo (Suc retries) f s =
     (case f s of
        (None, s') \<Rightarrow> (None, s')
      | (Some err, s') \<Rightarrow> retryDo retries f s')"

text \<open>The function handed to \<^verbatim>\<open>retry.Do\<close> by the callback: the write of the observed status.\<close>

definition writeStatus ::
  "'r recorder \<Rightarrow> Task \<Rightarrow> ('r, 'q) Infomer \<Rightarrow> error option \<times> ('r, 'q) Infomer" where
  "writeStatus rec t i =
     (if IsFinalStatus (Status t) then callFinishTask rec t i else callUpdateTask rec t i)"

text \<open>
  The callback \<^verbatim>\<open>monitorChangeResult\<close> registers with \<^verbatim>\<open>SetAfterChange\<close>: it logs the
  status change, writes it under the retry policy, logs the error that is left, and
  marks the change of the key done.
\<close>

definition afterChange ::
  "nat \<Rightarrow> 'r recorder \<Rightarrow> 'q TypedInterface \<Rightarrow> Task \<Rightarrow> ('r, 'q) Infomer \<Rightarrow> ('r, 'q) Infomer" where
  "afterChange retries rec cq t i =
     (case retryDo retries (writeStatus rec t) (logLine (LogMonitorChanged (TaskKey t) (Status t)) i) of
        (Some err, i') \<Rightarrow>
          callDone cq (keyChange (TaskKey t)) (logLine (LogUpdateTaskFailed (TaskKey t) err) i')
      | (None, i') \<Rightarrow> callDone cq (keyChange (TaskKey t)) i')"

text \<open>
  \<^verbatim>\<open>Indexer.processTask\<close>, with the callback set: a nil task is logged and dropped; any other
  is stored in the cache and handed to the callback.
\<close>

definition processTask ::
  "nat \<Rightarrow> 'r recorder \<Rightarrow> 'q TypedInterface \<Rightarrow> Task option \<Rightarrow> ('r, 'q) Infomer \<Rightarrow> ('r, 'q) Infomer" where
  "processTask retries rec cq c i =
     (case c of
        None \<Rightarrow> logLine LogReceivedNilTask i
      | Some t \<Rightarrow>
          afterChange retries rec cq t (i\<lparr> indexerCache := cacheSet (indexerCache i) (TaskKey t) t \<rparr>))"

text \<open>
  The two goroutines of \<^verbatim>\<open>Run\<close> take turns: a step is a trigger received by the enqueue
  loop, or a task received by the loop of \<^verbatim>\<open>Indexer.Monitor\<close>. A run is the list of the
  steps taken until the context is cancelled, each step being taken as a whole.
\<close>

datatype step = TriggerStep triggerInfo | ChangeStep "Task option"

fun runSteps ::
  "changeTypeLookup \<Rightarrow> nat \<Rightarrow> 'r recorder \<Rightarrow> 'q TypedInterface \<Rightarrow> step list \<Rightarrow> ('r, 'q) Infomer
     \<Rightarrow> panic + ('r, 'q) Infomer" where
  "runSteps gct retries rec cq [] i = Inr i"
| "runSteps gct retries rec cq (TriggerStep info # rest) i =
     (case enqueueTick gct rec cq info i of
        Inl p \<Rightarrow> Inl p
      | Inr i' \<Rightarrow> runSteps gct retries rec cq rest i')"
| "runSteps gct retries rec cq (ChangeStep c # rest) i =
     runSteps gct retries rec cq rest (processTask retries rec cq c i)"

text \<open>
  \<^verbatim>\<open>Run\<close>: the compare-and-swap of \<^verbatim>\<open>running\<close> from false to true, then \<^verbatim>\<open>makeTigger\<close>, then
  the two goroutines until both return. \<^verbatim>\<open>makeTigger\<close> is not part of the available
  sources: its error, if any, is the parameter \<open>triggerErr\<close>, and the triggers it
  delivers are the trigger steps of the run.
\<close>

definition Run ::
  "changeTypeLookup \<Rightarrow> nat \<Rightarrow> 'r recorder \<Rightarrow> 'q TypedInterface \<Rightarrow> error option \<Rightarrow> step list
     \<Rightarrow> ('r, 'q) Infomer \<Rightarrow> panic + (error option \<times> ('r, 'q) Infomer)" where
  "Run gct retries rec cq triggerErr steps i =
     (if running i then Inr (Some ErrAlreadyRunning, i)
      else
        (case triggerErr of
           Some err \<Rightarrow> Inr (Some err, i\<lparr> running := True \<rparr>)
         | None \<Rightarrow>
             (case runSteps gct retries rec cq steps (i\<lparr> running := True \<rparr>) of
                Inl p \<Rightarrow> Inl p
              | Inr i' \<Rightarrow> Inr (None, i'))))"

text \<open>Calls of \<^verbatim>\<open>Run\<close> on one informer, one after the other, with what each returns.\<close>

fun RunAll ::
  "changeTypeLookup \<Rightarrow> nat \<Rightarrow> 'r recorder \<Rightarrow> 'q TypedInterface \<Rightarrow> (error option \<times> step list) list
     \<Rightarrow> ('r, 'q) Infomer \<Rightarrow> panic + (error option list \<times> ('r, 'q) Infomer)" where
  "RunAll gct retries rec cq [] i = Inr ([], i)"
| "RunAll gct retries rec cq ((triggerErr, steps) # calls) i =
     (case Run gct retries rec cq triggerErr steps i of
        Inl p \<Rightarrow> Inl p
      | Inr (res, i') \<Rightarrow>
          (case RunAll gct retries rec cq calls i' of
             Inl p \<Rightarrow> Inl p
           | Inr (ress, i'') \<Rightarrow> Inr (res # ress, i'')))"

section \<open>Test doubles\<close>

text \<open>
  A recorder for concrete runs. Its state counts the writes still to fail: a write fails
  while the count is positive. \<^verbatim>\<open>BatchGetWantTask\<close> answers the stored want tasks whose key
  is asked for, or fails when \<open>failGet\<close> is set.
\<close>

record stubState =
  failWrites :: nat
  failGet :: bool
  wants :: "Task list"

definition stubWrite :: "stubState \<Rightarrow> Task \<Rightarrow> error option \<times> stubState" where
  "stubWrite st t =
     (if failWrites st > 0 then (Some (ErrExternal ''write failed''), st\<lparr> failWrites := failWrites st - 1 \<rparr>)
      else (None, st))"

definition stubBatchGet :: "stubState \<Rightarrow> string list \<Rightarrow> (error + Task list) \<times> stubState" where
  "stubBatchGet st keys =
     (if failGet st then (Inl (ErrExternal ''get failed''), st)
      else (Inr (filter (\<lambda>t. TaskKey t \<in> set keys) (wants st)), st))"

definition stubRecorder :: "stubState recorder" where
  "stubRecorder = \<lparr> UpdateTask = stubWrite, FinishTask = stubWrite, BatchGetWantTask = stubBatchGet \<rparr>"

definition mkTask :: "string \<Rightarrow> TaskStatus \<Rightarrow> Task" where
  "mkTask key st = zeroTask\<lparr> TaskKey := key, Status := st \<rparr>"

definition mkInfomer :: "stubState \<Rightarrow> Task list \<Rightarrow> ChangeQueue \<Rightarrow> (stubState, ChangeQueue) Infomer" where
  "mkInfomer st cache q =
     \<lparr> running = False, indexerCache = cache, recorderSt = st, changeQueueSt = q, events = [] \<rparr>"

section \<open>Vocabulary of the properties\<close>

text \<open>
  The calls of the recorder and the calls of the queue that a list of events holds, in
  order, without their results.
\<close>

datatype recorderCall =
    CallUpdateTask Task
  | CallFinishTask Task
  | CallBatchGetWantTask "string list"

fun recorderCallOf :: "event \<Rightarrow> recorderCall list" where
  "recorderCallOf (RecUpdateTask t res) = [CallUpdateTask t]"
| "recorderCallOf (RecFinishTask t res) = [CallFinishTask t]"
| "recorderCallOf (RecBatchGetWantTask keys res) = [CallBatchGetWantTask keys]"
| "recorderCallOf (QueueAdd c exist) = []"
| "recorderCallOf (QueueDone c) = []"
| "recorderCallOf (Logged l) = []"

definition recorderCalls :: "event list \<Rightarrow> recorderCall list" where
  "recorderCalls evs = concat (map recorderCallOf evs)"

fun isQueueEvent :: "event \<Rightarrow> bool" where
  "isQueueEvent (QueueAdd c exist) = True"
| "isQueueEvent (QueueDone c) = True"
| "isQueueEvent _ = False"

definition queueEvents :: "event list \<Rightarrow> event list" where
  "queueEvents evs = filter isQueueEvent evs"

text \<open>
  The event and the call of the write the callback makes for an observed task:
  \<^verbatim>\<open>FinishTask\<close> for a final status, \<^verbatim>\<open>UpdateTask\<close> otherwise.
\<close>

definition writeEvent :: "Task \<Rightarrow> error option \<Rightarrow> event" where
  "writeEvent t res = (if IsFinalStatus (Status t) then RecFinishTask t res else RecUpdateTask t res)"

definition writeCall :: "Task \<Rightarrow> recorderCall" where
  "writeCall t = (if IsFinalStatus (Status t) then CallFinishTask t else CallUpdateTask t)"

text \<open>
  \<open>emits gct pair c\<close>: \<open>c\<close> is the change the loop body of \<^verbatim>\<open>diff\<close> appends for \<open>pair\<close>: the
  statuses differ, the lookup gives the change type of \<open>c\<close>, and \<open>c\<close> is built from the
  task of the pair.
\<close>

definition emits :: "changeTypeLookup \<Rightarrow> taskPair \<Rightarrow> Change \<Rightarrow> bool" where
  "emits gct pair c =
     (realStatusOf pair \<noteq> wantStatusOf pair
      \<and> gct (realStatusOf pair) (wantStatusOf pair) = Inr (ChangeTypeC c)
      \<and> (case changeTaskOf pair of
            None \<Rightarrow> False
          | Some t \<Rightarrow> c = \<lparr> TaskKeyC = TaskKey t, TaskTypeC = Type t,
                             ChangeTypeC = ChangeTypeC c, TaskC = Some t \<rparr>))"



text \<open>
  The recorder seen from the callback, without the informer around it. \<open>recorderWrite\<close> is
  the one call an attempt makes on a state of the recorder; \<open>stateBefore rec t s k\<close> is the
  state of the recorder after \<open>k\<close> attempts from \<open>s\<close>, each attempt made on the state the one
  before it left; \<open>resultOf rec t s k\<close> is what attempt number \<open>k\<close> (from 0) returns.
\<close>

definition recorderWrite :: "'r recorder \<Rightarrow> Task \<Rightarrow> 'r \<Rightarrow> error option \<times> 'r" where
  "recorderWrite rec t s =
     (if IsFinalStatus (Status t) then FinishTask rec s t else UpdateTask rec s t)"

definition stateBefore :: "'r recorder \<Rightarrow> Task \<Rightarrow> 'r \<Rightarrow> nat \<Rightarrow> 'r" where
  "stateBefore rec t s k = ((\<lambda>s. snd (recorderWrite rec t s)) ^^ k) s"

definition resultOf :: "'r recorder \<Rightarrow> Task \<Rightarrow> 'r \<Rightarrow> nat \<Rightarrow> error option" where
  "resultOf rec t s k = fst (recorderWrite rec t (stateBefore rec t s k))"

text \<open>A write of the recorder that returned no error.\<close>

fun isSuccessfulWrite :: "event \<Rightarrow> bool" where
  "isSuccessfulWrite (RecUpdateTask t res) = (res = None)"
| "isSuccessfulWrite (RecFinishTask t res) = (res = None)"
| "isSuccessfulWrite _ = False"

section \<open>Concrete runs\<close>

text \<open>
  Three changes, one of each kind: an exception-finish change, a normal change and an
  exception-ignore change.
\<close>

definition exampleChanges :: "Change list" where
  "exampleChanges =
     [ \<lparr> TaskKeyC = ''K1'', TaskTypeC = [], ChangeTypeC = ChangeExceptionFinish, TaskC = None \<rparr>,
       \<lparr> TaskKeyC = ''K2'', TaskTypeC = [], ChangeTypeC = ChangePause, TaskC = None \<rparr>,
       \<lparr> TaskKeyC = ''K3'', TaskTypeC = [], ChangeTypeC = ChangeExceptionIgnore, TaskC = None \<rparr> ]"

text \<open>
  The callback for a task observed as running while every write of the recorder fails:
  three attempts (two retries), with the change of the key in flight.
\<close>

definition failingRun :: "(stubState, ChangeQueue) Infomer" where
  "failingRun =
     afterChange 2 stubRecorder changeQueueImpl (mkTask ''K1'' TaskStatusRunning)
       (mkInfomer \<lparr> failWrites = 5, failGet = False, wants = [] \<rparr> []
          (emptyQueue\<lparr> inflight := [''K1''] \<rparr>))"

text \<open>
  The callback for a task observed as stopped, with a recorder whose first write fails
  and whose second write succeeds.
\<close>

definition finishRetried :: "(stubState, ChangeQueue) Infomer" where
  "finishRetried =
     afterChange 2 stubRecorder changeQueueImpl (mkTask ''K1'' TaskStatusStop)
       (mkInfomer \<lparr> failWrites = 1, failGet = False, wants = [] \<rparr> []
          (emptyQueue\<lparr> inflight := [''K1''] \<rparr>))"

text \<open>A tick whose \<^verbatim>\<open>BatchGetWantTask\<close> fails, with a real task in the cache.\<close>

definition getFails :: "(stubState, ChangeQueue) Infomer" where
  "getFails =
     mkInfomer \<lparr> failWrites = 0, failGet = True, wants = [mkTask ''K1'' TaskStatusWaitRunning] \<rparr>
       [mkTask ''K2'' TaskStatusRunning] emptyQueue"

text \<open>
  Two want tasks; the real task of the second has finished with success.
\<close>

definition finishedExample :: "(stubState, ChangeQueue) Infomer" where
  "finishedExample =
     mkInfomer \<lparr> failWrites = 0, failGet = False,
                 wants = [mkTask ''K1'' TaskStatusWaitRunning, mkTask ''K2'' TaskStatusWaitStop] \<rparr>
       [mkTask ''K2'' TaskStatusSuccess] emptyQueue"

text \<open>
  A resync trigger and a watch trigger, both for the key K1, and three states they meet:
  the real task K2 is cached, no want task has its key, and a stop change for K2 is
  pending in the queue; a change for K1 is in flight while K1 is the only cached task;
  the same with the task K2 cached as well.
\<close>

definition resyncInfo :: triggerInfo where
  "resyncInfo = \<lparr> taskKeys = [''K1''], resync = True \<rparr>"

definition watchInfo :: triggerInfo where
  "watchInfo = \<lparr> taskKeys = [''K1''], resync = False \<rparr>"

definition stopK2 :: Change where
  "stopK2 = \<lparr> TaskKeyC = ''K2'', TaskTypeC = [], ChangeTypeC = ChangeStop,
               TaskC = Some (mkTask ''K2'' TaskStatusRunning) \<rparr>"

definition orphanPending :: "(stubState, ChangeQueue) Infomer" where
  "orphanPending =
     mkInfomer \<lparr> failWrites = 0, failGet = False, wants = [mkTask ''K1'' TaskStatusWaitRunning] \<rparr>
       [mkTask ''K2'' TaskStatusRunning] (emptyQueue\<lparr> pending := [stopK2] \<rparr>)"

definition pauseInFlight :: "(stubState, ChangeQueue) Infomer" where
  "pauseInFlight =
     mkInfomer \<lparr> failWrites = 0, failGet = False, wants = [mkTask ''K1'' TaskStatusWaitPaused] \<rparr>
       [mkTask ''K1'' TaskStatusRunning] (emptyQueue\<lparr> inflight := [''K1''] \<rparr>)"

definition pauseInFlightK2 :: "(stubState, ChangeQueue) Infomer" where
  "pauseInFlightK2 =
     mkInfomer \<lparr> failWrites = 0, failGet = False, wants = [mkTask ''K1'' TaskStatusWaitPaused] \<rparr>
       [mkTask ''K1'' TaskStatusRunning, mkTask ''K2'' TaskStatusRunning]
       (emptyQueue\<lparr> inflight := [''K1''] \<rparr>)"

text \<open>An informer that has not run yet.\<close>

definition freshInfomer :: "(stubState, ChangeQueue) Infomer" where
  "freshInfomer = mkInfomer \<lparr> failWrites = 0, failGet = False, wants = [] \<rparr> [] emptyQueue"

section \<open>Properties\<close>

subsection \<open>The differ\<close>

lemma diffLoop_sound:
  "diffLoop gct ps changes logs = Inr (changes', logs') \<Longrightarrow> c \<in> set changes'
     \<Longrightarrow> c \<in> set changes \<or> (\<exists>p. p \<in> set ps \<and> emits gct p c)"
proof (induction ps arbitrary: changes logs)
  case Nil
  then show ?case by simp
next
  case (Cons p ps)
  show ?case
  proof (cases "realStatusOf p = wantStatusOf p")
    case True
    with Cons.prems Cons.IH [of changes logs] show ?thesis by auto
  next
    case neq: False
    show ?thesis
    proof (cases "gct (realStatusOf p) (wantStatusOf p)")
      case (Inl err)
      with neq Cons.prems obtain w where w: "want p = Some w"
        and rec: "diffLoop gct ps changes
           (logs @ [LogDiffFailed (TaskKey w) (realStatusOf p) (wantStatusOf p) err]) = Inr (changes', logs')"
        by (auto split: option.splits)
      from Cons.IH [OF rec Cons.prems(2)] show ?thesis by auto
    next
      case (Inr ct)
      with neq Cons.prems obtain t where t: "changeTaskOf p = Some t"
        and rec: "diffLoop gct ps
           (changes @ [\<lparr> TaskKeyC = TaskKey t, TaskTypeC = Type t, ChangeTypeC = ct, TaskC = Some t \<rparr>])
           logs = Inr (changes', logs')"
        by (auto split: option.splits)
      from Cons.IH [OF rec Cons.prems(2)]
      have "c \<in> set changes \<or> c = \<lparr> TaskKeyC = TaskKey t, TaskTypeC = Type t, ChangeTypeC = ct, TaskC = Some t \<rparr>
              \<or> (\<exists>p. p \<in> set ps \<and> emits gct p c)"
        by auto
      moreover have "emits gct p \<lparr> TaskKeyC = TaskKey t, TaskTypeC = Type t, ChangeTypeC = ct, TaskC = Some t \<rparr>"
        using neq Inr t by (simp add: emits_def)
      ultimately show ?thesis by auto
    qed
  qed
qed



lemma filterFinished_eq:
  "filterFinished ps ret = ret @ filter (\<lambda>p. \<not> pairAutoFinished p) ps"
  by (induction ps arbitrary: ret) simp_all

lemma diffLoop_panics:
  assumes "gct (Status r) TaskStatusNotExist = Inl err" and "Status r \<noteq> TaskStatusNotExist"
  shows "diffLoop gct (pre @ \<lparr> want = None, real = Some r \<rparr> # rest) changes logs
           = Inl NilPointerDereference"
proof (induction pre arbitrary: changes logs)
  case Nil
  from assms show ?case
    by (simp add: realStatusOf_def wantStatusOf_def)
next
  case (Cons p pre)
  show ?case
    by (simp add: Cons.IH split: sum.split option.split)
qed

lemma GetChangeType_Stop_NotExist:
  "GetChangeType TaskStatusStop TaskStatusNotExist
     = Inl (ErrUnknownChangeType TaskStatusStop TaskStatusNotExist)"
  by (simp add: GetChangeType_def changeTable_def)

text \<open>
  C4. The claim: a pair whose statuses have no change type is logged and skipped, also
  when its want side is absent, and \<^verbatim>\<open>diff\<close> never panics. The code at such a pair with an
  absent want: whenever the lookup fails for a present real task and an absent want task,
  \<^verbatim>\<open>diff\<close> panics with a nil pointer dereference (the log call reads \<^verbatim>\<open>want.TaskKey\<close>),
  wherever the pair stands in the list.
\<close>

theorem diff_panics_when_want_absent:
  assumes "gct (Status r) TaskStatusNotExist = Inl err" and "Status r \<noteq> TaskStatusNotExist"
  shows "diff gct (pre @ \<lparr> want = None, real = Some r \<rparr> # rest) = Inl NilPointerDereference"
  unfolding diff_def using assms by (rule diffLoop_panics)

theorem diff_panics_when_want_absent_witness:
  "GetChangeType (Status (mkTask ''K2'' TaskStatusStop)) TaskStatusNotExist
     = Inl (ErrUnknownChangeType TaskStatusStop TaskStatusNotExist)
   \<and> Status (mkTask ''K2'' TaskStatusStop) \<noteq> TaskStatusNotExist
   \<and> diff GetChangeType
        ([\<lparr> want = Some (mkTask ''K1'' TaskStatusWaitRunning), real = None \<rparr>]
         @ \<lparr> want = None, real = Some (mkTask ''K2'' TaskStatusStop) \<rparr> # [])
       = Inl NilPointerDereference"
proof -
  have a: "GetChangeType (Status (mkTask ''K2'' TaskStatusStop)) TaskStatusNotExist
     = Inl (ErrUnknownChangeType TaskStatusStop TaskStatusNotExist)"
    by (simp add: mkTask_def GetChangeType_Stop_NotExist)
  have b: "Status (mkTask ''K2'' TaskStatusStop) \<noteq> TaskStatusNotExist"
    by (simp add: mkTask_def)
  from a b diff_panics_when_want_absent
    [where gct = GetChangeType and r = "mkTask ''K2'' TaskStatusStop"
       and pre = "[\<lparr> want = Some (mkTask ''K1'' TaskStatusWaitRunning), real = None \<rparr>]"
       and rest = "[]", OF a b]
  show ?thesis by simp
qed

subsection \<open>The recycle condition of the indexer's cache\<close>

text \<open>
  C9. An entry holding a task is recyclable exactly when the status of the task is Stop,
  Success or Failed and the time since the entry was set is strictly more than one
  minute (60 * 10^9 nanoseconds). The condition reads nothing else: no want-side state
  enters it. The entries of the indexer always hold a task: \<^verbatim>\<open>initCache\<close> and
  \<^verbatim>\<open>processTask\<close> read the key of the task they set.
\<close>

theorem recycleCondition_iff:
  "recycleCondition (Some t) afterSetDuration
     = (Status t \<in> {TaskStatusStop, TaskStatusSuccess, TaskStatusFailed}
        \<and> afterSetDuration > 60000000000)"
  by (auto simp add: recycleCondition_def IsFinalStatus_def Minute_def)

subsection \<open>Effects of the calls\<close>

lemma recorderCalls_append [simp]: "recorderCalls (xs @ ys) = recorderCalls xs @ recorderCalls ys"
  by (simp add: recorderCalls_def)

lemma queueEvents_append [simp]: "queueEvents (xs @ ys) = queueEvents xs @ queueEvents ys"
  by (simp add: queueEvents_def)

lemma recorderCalls_Nil [simp]: "recorderCalls [] = []"
  by (simp add: recorderCalls_def)

lemma queueEvents_Nil [simp]: "queueEvents [] = []"
  by (simp add: queueEvents_def)

lemma callFinishTask_effect:
  "callFinishTask rec t i = (res, i') \<Longrightarrow>
     events i' = events i @ [RecFinishTask t res] \<and> changeQueueSt i' = changeQueueSt i
     \<and> running i' = running i \<and> indexerCache i' = indexerCache i"
  by (auto simp add: callFinishTask_def split: prod.splits)

lemma callUpdateTask_effect:
  "callUpdateTask rec t i = (res, i') \<Longrightarrow>
     events i' = events i @ [RecUpdateTask t res] \<and> changeQueueSt i' = changeQueueSt i
     \<and> running i' = running i \<and> indexerCache i' = indexerCache i"
  by (auto simp add: callUpdateTask_def split: prod.splits)

lemma logLine_effect:
  "events (logLine l i) = events i @ [Logged l] \<and> changeQueueSt (logLine l i) = changeQueueSt i
     \<and> running (logLine l i) = running i \<and> indexerCache (logLine l i) = indexerCache i
     \<and> recorderSt (logLine l i) = recorderSt i"
  by (simp add: logLine_def)

lemma handleExceptionLoop_effect:
  "handleExceptionLoop rec cs acc i = (cs', i') \<Longrightarrow>
     cs' = acc @ filter (\<lambda>c. \<not> IsException c) cs
     \<and> (\<exists>new. events i' = events i @ new
            \<and> recorderCalls new
                = map (\<lambda>c. CallFinishTask (exceptionTask c))
                    (filter (\<lambda>c. ChangeTypeC c = ChangeExceptionFinish) cs)
            \<and> queueEvents new = [])
     \<and> changeQueueSt i' = changeQueueSt i \<and> running i' = running i
     \<and> indexerCache i' = indexerCache i"
proof (induction cs arbitrary: acc i)
  case Nil
  then show ?case by simp
next
  case (Cons c cs)
  show ?case
  proof (cases "IsException c")
    case False
    with Cons.prems have "handleExceptionLoop rec cs (acc @ [c]) i = (cs', i')" by simp
    from Cons.IH [OF this] False show ?thesis
      by (auto simp add: IsException_def)
  next
    case exc: True
    show ?thesis
    proof (cases "ChangeTypeC c = ChangeExceptionFinish")
      case False
      with exc Cons.prems have "handleExceptionLoop rec cs acc i = (cs', i')" by simp
      from Cons.IH [OF this] False exc show ?thesis by simp
    next
      case fin: True
      obtain res i1 where call: "callFinishTask rec (exceptionTask c) i = (res, i1)"
        by (cases "callFinishTask rec (exceptionTask c) i")
      note eff = callFinishTask_effect [OF call]
      show ?thesis
      proof (cases res)
        case None
        with exc fin call Cons.prems have "handleExceptionLoop rec cs acc i1 = (cs', i')" by simp
        from Cons.IH [OF this] obtain new where
          new: "events i' = events i1 @ new"
            "recorderCalls new = map (\<lambda>c. CallFinishTask (exceptionTask c))
                    (filter (\<lambda>c. ChangeTypeC c = ChangeExceptionFinish) cs)"
            "queueEvents new = []"
          and rest: "cs' = acc @ filter (\<lambda>c. \<not> IsException c) cs"
            "changeQueueSt i' = changeQueueSt i1" "running i' = running i1"
            "indexerCache i' = indexerCache i1"
          by blast
        let ?new = "RecFinishTask (exceptionTask c) res # new"
        have "events i' = events i @ ?new" using new(1) eff by simp
        moreover have "recorderCalls ?new = map (\<lambda>c. CallFinishTask (exceptionTask c))
                    (filter (\<lambda>c. ChangeTypeC c = ChangeExceptionFinish) (c # cs))"
          using new(2) fin by (simp add: recorderCalls_def)
        moreover have "queueEvents ?new = []" using new(3) by (simp add: queueEvents_def)
        ultimately show ?thesis using rest eff exc by auto
      next
        case (Some err)
        let ?i2 = "logLine (LogFinishTaskFailed (TaskKeyC c) err) i1"
        from Some exc fin call Cons.prems have "handleExceptionLoop rec cs acc ?i2 = (cs', i')" by simp
        from Cons.IH [OF this] obtain new where
          new: "events i' = events ?i2 @ new"
            "recorderCalls new = map (\<lambda>c. CallFinishTask (exceptionTask c))
                    (filter (\<lambda>c. ChangeTypeC c = ChangeExceptionFinish) cs)"
            "queueEvents new = []"
          and rest: "cs' = acc @ filter (\<lambda>c. \<not> IsException c) cs"
            "changeQueueSt i' = changeQueueSt ?i2" "running i' = running ?i2"
            "indexerCache i' = indexerCache ?i2"
          by blast
        let ?new = "RecFinishTask (exceptionTask c) res # Logged (LogFinishTaskFailed (TaskKeyC c) err) # new"
        have "events i' = events i @ ?new" using new(1) eff by (simp add: logLine_effect)
        moreover have "recorderCalls ?new = map (\<lambda>c. CallFinishTask (exceptionTask c))
                    (filter (\<lambda>c. ChangeTypeC c = ChangeExceptionFinish) (c # cs))"
          using new(2) fin by (simp add: recorderCalls_def)
        moreover have "queueEvents ?new = []" using new(3) by (simp add: queueEvents_def)
        ultimately show ?thesis using rest eff exc by (auto simp add: logLine_effect)
      qed
    qed
  qed
qed

lemma writeStatus_effect:
  "writeStatus rec t i = (res, i') \<Longrightarrow>
     events i' = events i @ [writeEvent t res] \<and> changeQueueSt i' = changeQueueSt i
     \<and> running i' = running i \<and> indexerCache i' = indexerCache i"
  by (auto simp add: writeStatus_def writeEvent_def
      dest: callFinishTask_effect callUpdateTask_effect split: if_splits)

lemma retryDo_effect:
  "retryDo retries (writeStatus rec t) i = (res, i') \<Longrightarrow>
     \<exists>rs. rs \<noteq> [] \<and> length rs \<le> Suc retries \<and> last rs = res
        \<and> filter (\<lambda>r. r = None) (butlast rs) = []
        \<and> (res = None \<or> length rs = Suc retries)
        \<and> events i' = events i @ map (writeEvent t) rs
        \<and> changeQueueSt i' = changeQueueSt i \<and> running i' = running i
        \<and> indexerCache i' = indexerCache i"
proof (induction retries arbitrary: i)
  case 0
  then have w: "writeStatus rec t i = (res, i')" by simp
  from writeStatus_effect [OF w] show ?case
    by (intro exI [of _ "[res]"]) simp
next
  case (Suc n)
  obtain r1 i1 where w: "writeStatus rec t i = (r1, i1)"
    by (cases "writeStatus rec t i")
  note eff = writeStatus_effect [OF w]
  show ?case
  proof (cases r1)
    case None
    with w Suc.prems have "res = None" "i' = i1" by simp_all
    with eff None show ?thesis
      by (intro exI [of _ "[None]"]) simp
  next
    case (Some err)
    with w Suc.prems have "retryDo n (writeStatus rec t) i1 = (res, i')" by simp
    from Suc.IH [OF this] obtain rs where rs: "rs \<noteq> []" "length rs \<le> Suc n" "last rs = res"
      "filter (\<lambda>r. r = None) (butlast rs) = []" "res = None \<or> length rs = Suc n"
      "events i' = events i1 @ map (writeEvent t) rs"
      "changeQueueSt i' = changeQueueSt i1" "running i' = running i1"
      "indexerCache i' = indexerCache i1"
      by blast
    show ?thesis
      using rs eff Some
      by (intro exI [of _ "r1 # rs"]) auto
  qed
qed

subsection \<open>The exception changes\<close>

text \<open>
  C5. \<^verbatim>\<open>handleException\<close> returns exactly the changes that are no exception (neither
  exception-finish nor exception-ignore), in order. The calls of the recorder it makes
  are one \<^verbatim>\<open>FinishTask\<close> for each exception-finish change, in order, with a task holding
  the key of the change, the status Stop and the message "exception finish"; there is no
  call for an exception-ignore change, and no call of the queue. The result does not
  depend on what \<^verbatim>\<open>FinishTask\<close> returns: the statement holds for every recorder.
\<close>

theorem handleException_splits_changes:
  assumes "handleException rec cs i = (normalChanges, i')"
  shows "normalChanges = filter (\<lambda>c. \<not> IsException c) cs
     \<and> (\<exists>new. events i' = events i @ new
            \<and> recorderCalls new
                = map (\<lambda>c. CallFinishTask
                               (zeroTask\<lparr> TaskKey := TaskKeyC c, Status := TaskStatusStop,
                                           Msg := ''exception finish'' \<rparr>))
                    (filter (\<lambda>c. ChangeTypeC c = ChangeExceptionFinish) cs)
            \<and> queueEvents new = [])
     \<and> changeQueueSt i' = changeQueueSt i
     \<and> filter (\<lambda>c. \<not> IsException c) cs
         = filter (\<lambda>c. ChangeTypeC c \<noteq> ChangeExceptionFinish \<and> ChangeTypeC c \<noteq> ChangeExceptionIgnore) cs"
proof -
  from assms have "handleExceptionLoop rec cs [] i = (normalChanges, i')"
    by (simp add: handleException_def)
  from handleExceptionLoop_effect [OF this]
  have a: "normalChanges = filter (\<lambda>c. \<not> IsException c) cs"
    and b: "\<exists>new. events i' = events i @ new
            \<and> recorderCalls new
                = map (\<lambda>c. CallFinishTask (exceptionTask c))
                    (filter (\<lambda>c. ChangeTypeC c = ChangeExceptionFinish) cs)
            \<and> queueEvents new = []"
    and c: "changeQueueSt i' = changeQueueSt i"
    by simp_all
  have d: "filter (\<lambda>c. \<not> IsException c) cs
         = filter (\<lambda>c. ChangeTypeC c \<noteq> ChangeExceptionFinish \<and> ChangeTypeC c \<noteq> ChangeExceptionIgnore) cs"
    by (simp add: IsException_def)
  from a b c d show ?thesis by (simp add: exceptionTask_def)
qed

theorem handleException_splits_changes_witness:
  "handleException stubRecorder exampleChanges
      (mkInfomer \<lparr> failWrites = 1, failGet = False, wants = [] \<rparr> [] emptyQueue)
     = ([\<lparr> TaskKeyC = ''K2'', TaskTypeC = [], ChangeTypeC = ChangePause, TaskC = None \<rparr>],
        (mkInfomer \<lparr> failWrites = 0, failGet = False, wants = [] \<rparr> [] emptyQueue)
          \<lparr> events := [RecFinishTask (zeroTask\<lparr> TaskKey := ''K1'', Status := TaskStatusStop,
                                                   Msg := ''exception finish'' \<rparr>)
                          (Some (ErrExternal ''write failed'')),
                        Logged (LogFinishTaskFailed ''K1'' (ErrExternal ''write failed''))] \<rparr>)
   \<and> [\<lparr> TaskKeyC = ''K2'', TaskTypeC = [], ChangeTypeC = ChangePause, TaskC = None \<rparr>]
       = filter (\<lambda>c. \<not> IsException c) exampleChanges"
proof -
  have run: "handleException stubRecorder exampleChanges
      (mkInfomer \<lparr> failWrites = 1, failGet = False, wants = [] \<rparr> [] emptyQueue)
     = ([\<lparr> TaskKeyC = ''K2'', TaskTypeC = [], ChangeTypeC = ChangePause, TaskC = None \<rparr>],
        (mkInfomer \<lparr> failWrites = 0, failGet = False, wants = [] \<rparr> [] emptyQueue)
          \<lparr> events := [RecFinishTask (zeroTask\<lparr> TaskKey := ''K1'', Status := TaskStatusStop,
                                                   Msg := ''exception finish'' \<rparr>)
                          (Some (ErrExternal ''write failed'')),
                        Logged (LogFinishTaskFailed ''K1'' (ErrExternal ''write failed''))] \<rparr>)"
    by (simp add: handleException_def exampleChanges_def IsException_def callFinishTask_def
        stubRecorder_def stubWrite_def mkInfomer_def logLine_def exceptionTask_def)
  from handleException_splits_changes [OF run] run show ?thesis by blast
qed

subsection \<open>The monitor callback\<close>

lemma callDone_effect:
  "events (callDone cq c i) = events i @ [QueueDone c]
   \<and> changeQueueSt (callDone cq c i) = Done cq (changeQueueSt i) c
   \<and> running (callDone cq c i) = running i
   \<and> indexerCache (callDone cq c i) = indexerCache i"
  by (simp add: callDone_def)

lemma afterChange_effect:
  "\<exists>rs. rs \<noteq> [] \<and> length rs \<le> Suc retries
      \<and> filter (\<lambda>r. r = None) (butlast rs) = []
      \<and> (last rs = None \<or> length rs = Suc retries)
      \<and> events (afterChange retries rec cq t i)
          = events i @ [Logged (LogMonitorChanged (TaskKey t) (Status t))]
              @ map (writeEvent t) rs
              @ (case last rs of None \<Rightarrow> [] | Some err \<Rightarrow> [Logged (LogUpdateTaskFailed (TaskKey t) err)])
              @ [QueueDone (keyChange (TaskKey t))]
      \<and> changeQueueSt (afterChange retries rec cq t i) = Done cq (changeQueueSt i) (keyChange (TaskKey t))
      \<and> running (afterChange retries rec cq t i) = running i
      \<and> indexerCache (afterChange retries rec cq t i) = indexerCache i"
proof -
  let ?i0 = "logLine (LogMonitorChanged (TaskKey t) (Status t)) i"
  obtain res i1 where r: "retryDo retries (writeStatus rec t) ?i0 = (res, i1)"
    by (cases "retryDo retries (writeStatus rec t) ?i0")
  from retryDo_effect [OF r] obtain rs where rs: "rs \<noteq> []" "length rs \<le> Suc retries"
      "last rs = res" "filter (\<lambda>r. r = None) (butlast rs) = []"
      "res = None \<or> length rs = Suc retries"
      "events i1 = events ?i0 @ map (writeEvent t) rs"
      "changeQueueSt i1 = changeQueueSt ?i0" "running i1 = running ?i0"
      "indexerCache i1 = indexerCache ?i0"
    by blast
  show ?thesis
  proof (cases res)
    case None
    with r have "afterChange retries rec cq t i = callDone cq (keyChange (TaskKey t)) i1"
      by (simp add: afterChange_def)
    with rs None show ?thesis
      by (intro exI [of _ rs]) (simp add: callDone_effect logLine_effect)
  next
    case (Some err)
    with r have "afterChange retries rec cq t i
        = callDone cq (keyChange (TaskKey t)) (logLine (LogUpdateTaskFailed (TaskKey t) err) i1)"
      by (simp add: afterChange_def)
    with rs Some show ?thesis
      by (intro exI [of _ rs]) (simp add: callDone_effect logLine_effect)
  qed
qed

lemma writeStatus_recorder:
  "writeStatus rec t i = (res, i') \<Longrightarrow>
     res = fst (recorderWrite rec t (recorderSt i))
     \<and> recorderSt i' = snd (recorderWrite rec t (recorderSt i))"
  by (auto simp add: writeStatus_def recorderWrite_def callFinishTask_def callUpdateTask_def
      split: if_splits prod.splits)

lemma stateBefore_Suc:
  "stateBefore rec t s (Suc k) = stateBefore rec t (snd (recorderWrite rec t s)) k"
  by (simp only: stateBefore_def funpow_Suc_right comp_apply)

lemma resultOf_Suc:
  "resultOf rec t s (Suc k) = resultOf rec t (snd (recorderWrite rec t s)) k"
  by (simp add: resultOf_def stateBefore_Suc)

lemma map_upt_shift: "map f [0..<Suc n] = f 0 # map (\<lambda>k. f (Suc k)) [0..<n]"
  by (simp add: upt_conv_Cons map_Suc_upt [symmetric] del: upt_Suc)

lemma retryDo_chain:
  "retryDo retries (writeStatus rec t) i = (res, i') \<Longrightarrow>
     \<exists>n. 1 \<le> n \<and> n \<le> Suc retries
        \<and> (\<forall>k. k < n - 1 \<longrightarrow> resultOf rec t (recorderSt i) k \<noteq> None)
        \<and> res = resultOf rec t (recorderSt i) (n - 1)
        \<and> (res = None \<or> n = Suc retries)
        \<and> recorderSt i' = stateBefore rec t (recorderSt i) n
        \<and> events i' = events i @ map (\<lambda>k. writeEvent t (resultOf rec t (recorderSt i) k)) [0..<n]
        \<and> changeQueueSt i' = changeQueueSt i \<and> running i' = running i
        \<and> indexerCache i' = indexerCache i"
proof (induction retries arbitrary: i)
  case 0
  then have w: "writeStatus rec t i = (res, i')" by simp
  from writeStatus_effect [OF w] writeStatus_recorder [OF w] show ?case
    by (intro exI [of _ 1]) (simp add: resultOf_def stateBefore_def)
next
  case (Suc m)
  obtain r1 i1 where w: "writeStatus rec t i = (r1, i1)"
    by (cases "writeStatus rec t i")
  note eff = writeStatus_effect [OF w]
  note rc = writeStatus_recorder [OF w]
  show ?case
  proof (cases r1)
    case None
    with w Suc.prems have "res = None" "i' = i1" by simp_all
    with eff rc None show ?thesis
      by (intro exI [of _ 1]) (simp add: resultOf_def stateBefore_def)
  next
    case (Some err)
    with w Suc.prems have "retryDo m (writeStatus rec t) i1 = (res, i')" by simp
    from Suc.IH [OF this] obtain n where n: "1 \<le> n" "n \<le> Suc m"
      "\<forall>k. k < n - 1 \<longrightarrow> resultOf rec t (recorderSt i1) k \<noteq> None"
      "res = resultOf rec t (recorderSt i1) (n - 1)"
      "res = None \<or> n = Suc m"
      "recorderSt i' = stateBefore rec t (recorderSt i1) n"
      "events i' = events i1 @ map (\<lambda>k. writeEvent t (resultOf rec t (recorderSt i1) k)) [0..<n]"
      "changeQueueSt i' = changeQueueSt i1" "running i' = running i1"
      "indexerCache i' = indexerCache i1"
      by blast
    have s1: "recorderSt i1 = snd (recorderWrite rec t (recorderSt i))" using rc by simp
    have r0: "resultOf rec t (recorderSt i) 0 = r1"
      using rc by (simp add: resultOf_def stateBefore_def)
    have a: "\<forall>k. k < Suc n - 1 \<longrightarrow> resultOf rec t (recorderSt i) k \<noteq> None"
    proof (intro allI impI)
      fix k assume k: "k < Suc n - 1"
      show "resultOf rec t (recorderSt i) k \<noteq> None"
      proof (cases k)
        case 0
        with r0 Some show ?thesis by simp
      next
        case (Suc j)
        with k have "j < n - 1" by simp
        with n(3) have "resultOf rec t (recorderSt i1) j \<noteq> None" by blast
        with Suc show ?thesis by (simp add: resultOf_Suc s1)
      qed
    qed
    have b: "res = resultOf rec t (recorderSt i) (Suc n - 1)"
    proof -
      from n(1) obtain j where j: "n = Suc j" by (cases n) simp_all
      with n(4) show ?thesis by (simp add: resultOf_Suc s1)
    qed
    have c: "recorderSt i' = stateBefore rec t (recorderSt i) (Suc n)"
      using n(6) by (simp add: stateBefore_Suc s1)
    have d: "events i' = events i @ map (\<lambda>k. writeEvent t (resultOf rec t (recorderSt i) k)) [0..<Suc n]"
      unfolding map_upt_shift using n(7) eff r0 by (simp add: resultOf_Suc s1)
    from n(1,2,5,8,9,10) eff a b c d show ?thesis
      by (intro exI [of _ "Suc n"]) simp
  qed
qed

lemma recorderCalls_attempts:
  "recorderCalls (map (\<lambda>k. writeEvent t (f k)) ks) = replicate (length ks) (writeCall t)"
  by (induction ks) (simp_all add: recorderCalls_def writeEvent_def writeCall_def)

lemma queueEvents_attempts: "queueEvents (map (\<lambda>k. writeEvent t (f k)) ks) = []"
  by (induction ks) (simp_all add: queueEvents_def writeEvent_def)

text \<open>
  C8. For every observed task, every recorder and every queue, the callback makes \<open>n\<close>
  attempts to write, with \<open>1 \<le> n \<le> retries + 1\<close>. Each attempt is one call of the recorder,
  \<^verbatim>\<open>FinishTask\<close> of the task when its status is Stop, Success or Failed and \<^verbatim>\<open>UpdateTask\<close> of
  the task otherwise, made on the state the attempt before it left, and recorded with what
  the recorder returned. Every attempt but the last failed: a failed attempt is followed
  by another until one succeeds or \<open>retries + 1\<close> have been made. The recorder is left in
  the state after the \<open>n\<close> attempts. The events of the callback are the line logging the
  change, the attempts, the line logging the error when the last attempt failed, and last
  the one call of the queue, \<^verbatim>\<open>Done\<close> with a change carrying the key of the task: it is made
  whatever the writes returned, on the queue as the callback found it. The cache and the
  flag are untouched.
\<close>

theorem afterChange_writes_then_done:
  "\<exists>n new. 1 \<le> n \<and> n \<le> Suc retries
      \<and> (\<forall>k. k < n - 1 \<longrightarrow> resultOf rec t (recorderSt i) k \<noteq> None)
      \<and> (resultOf rec t (recorderSt i) (n - 1) = None \<or> n = Suc retries)
      \<and> recorderSt (afterChange retries rec cq t i) = stateBefore rec t (recorderSt i) n
      \<and> new = [Logged (LogMonitorChanged (TaskKey t) (Status t))]
              @ map (\<lambda>k. writeEvent t (resultOf rec t (recorderSt i) k)) [0..<n]
              @ (case resultOf rec t (recorderSt i) (n - 1) of
                   None \<Rightarrow> []
                 | Some err \<Rightarrow> [Logged (LogUpdateTaskFailed (TaskKey t) err)])
              @ [QueueDone (keyChange (TaskKey t))]
      \<and> events (afterChange retries rec cq t i) = events i @ new
      \<and> recorderCalls new
           = replicate n (if Status t \<in> {TaskStatusStop, TaskStatusSuccess, TaskStatusFailed}
                          then CallFinishTask t else CallUpdateTask t)
      \<and> queueEvents new = [QueueDone (keyChange (TaskKey t))]
      \<and> last new = QueueDone (keyChange (TaskKey t))
      \<and> TaskKeyC (keyChange (TaskKey t)) = TaskKey t
      \<and> changeQueueSt (afterChange retries rec cq t i)
           = Done cq (changeQueueSt i) (keyChange (TaskKey t))
      \<and> indexerCache (afterChange retries rec cq t i) = indexerCache i
      \<and> running (afterChange retries rec cq t i) = running i
      \<and> (\<forall>s. recorderWrite rec t s
                = (if Status t \<in> {TaskStatusStop, TaskStatusSuccess, TaskStatusFailed}
                   then FinishTask rec s t else UpdateTask rec s t))
      \<and> (\<forall>res. writeEvent t res
                = (if Status t \<in> {TaskStatusStop, TaskStatusSuccess, TaskStatusFailed}
                   then RecFinishTask t res else RecUpdateTask t res))"
proof -
  let ?i0 = "logLine (LogMonitorChanged (TaskKey t) (Status t)) i"
  let ?i' = "afterChange retries rec cq t i"
  obtain res i1 where r: "retryDo retries (writeStatus rec t) ?i0 = (res, i1)"
    by (cases "retryDo retries (writeStatus rec t) ?i0")
  have s0: "recorderSt ?i0 = recorderSt i" by (simp add: logLine_effect)
  from retryDo_chain [OF r] obtain n where n: "1 \<le> n" "n \<le> Suc retries"
      "\<forall>k. k < n - 1 \<longrightarrow> resultOf rec t (recorderSt i) k \<noteq> None"
      "res = resultOf rec t (recorderSt i) (n - 1)"
      "res = None \<or> n = Suc retries"
      "recorderSt i1 = stateBefore rec t (recorderSt i) n"
      "events i1 = events ?i0 @ map (\<lambda>k. writeEvent t (resultOf rec t (recorderSt i) k)) [0..<n]"
      "changeQueueSt i1 = changeQueueSt ?i0" "running i1 = running ?i0"
      "indexerCache i1 = indexerCache ?i0"
    unfolding s0 by blast
  let ?att = "map (\<lambda>k. writeEvent t (resultOf rec t (recorderSt i) k)) [0..<n]"
  let ?err = "case resultOf rec t (recorderSt i) (n - 1) of
                None \<Rightarrow> [] | Some err \<Rightarrow> [Logged (LogUpdateTaskFailed (TaskKey t) err)]"
  let ?new = "[Logged (LogMonitorChanged (TaskKey t) (Status t))] @ ?att @ ?err
                @ [QueueDone (keyChange (TaskKey t))]"
  have fin: "?i' = callDone cq (keyChange (TaskKey t))
                     (case res of None \<Rightarrow> i1
                      | Some err \<Rightarrow> logLine (LogUpdateTaskFailed (TaskKey t) err) i1)"
    using r by (cases res) (simp_all add: afterChange_def)
  have st: "recorderSt ?i' = stateBefore rec t (recorderSt i) n"
    unfolding fin using n(6) by (cases res) (simp_all add: callDone_def logLine_def)
  have resn: "resultOf rec t (recorderSt i) (n - 1) = res" using n(4) by simp
  have ev: "events ?i' = events i @ ?new"
    unfolding fin resn using n(7)
    by (cases res) (simp_all add: callDone_effect logLine_effect)
  have q: "changeQueueSt ?i' = Done cq (changeQueueSt i) (keyChange (TaskKey t))"
    unfolding fin using n(8) by (cases res) (simp_all add: callDone_effect logLine_effect)
  have ca: "indexerCache ?i' = indexerCache i" and ru: "running ?i' = running i"
    unfolding fin using n(9,10) by (cases res; simp add: callDone_effect logLine_effect)+
  have wc: "writeCall t = (if Status t \<in> {TaskStatusStop, TaskStatusSuccess, TaskStatusFailed}
                          then CallFinishTask t else CallUpdateTask t)"
    by (simp add: writeCall_def IsFinalStatus_def)
  have r1: "recorderCalls [Logged (LogMonitorChanged (TaskKey t) (Status t))] = []"
    and r2: "recorderCalls ?err = []"
    and r3: "recorderCalls [QueueDone (keyChange (TaskKey t))] = []"
    by (cases "resultOf rec t (recorderSt i) (n - 1)"; simp add: recorderCalls_def)+
  have q1: "queueEvents [Logged (LogMonitorChanged (TaskKey t) (Status t))] = []"
    and q2: "queueEvents ?err = []"
    and q3: "queueEvents [QueueDone (keyChange (TaskKey t))] = [QueueDone (keyChange (TaskKey t))]"
    by (cases "resultOf rec t (recorderSt i) (n - 1)"; simp add: queueEvents_def)+
  have rcalls: "recorderCalls ?new = replicate n (if Status t \<in> {TaskStatusStop, TaskStatusSuccess, TaskStatusFailed}
                          then CallFinishTask t else CallUpdateTask t)"
    by (simp only: recorderCalls_append r1 r2 r3 recorderCalls_attempts append_Nil append_Nil2
        length_upt diff_zero wc)
  have qev: "queueEvents ?new = [QueueDone (keyChange (TaskKey t))]"
    by (simp only: queueEvents_append q1 q2 q3 queueEvents_attempts append_Nil append_Nil2)
  have la: "last ?new = QueueDone (keyChange (TaskKey t))" by simp
  have kc: "TaskKeyC (keyChange (TaskKey t)) = TaskKey t" by (simp add: keyChange_def)
  have rw: "\<forall>s. recorderWrite rec t s
                = (if Status t \<in> {TaskStatusStop, TaskStatusSuccess, TaskStatusFailed}
                   then FinishTask rec s t else UpdateTask rec s t)"
    by (simp add: recorderWrite_def IsFinalStatus_def)
  have we: "\<forall>res. writeEvent t res
                = (if Status t \<in> {TaskStatusStop, TaskStatusSuccess, TaskStatusFailed}
                   then RecFinishTask t res else RecUpdateTask t res)"
    by (simp add: writeEvent_def IsFinalStatus_def)
  have last_ok: "resultOf rec t (recorderSt i) (n - 1) = None \<or> n = Suc retries"
    using n(4,5) by simp
  show ?thesis
    apply (rule exI [of _ n])
    apply (rule exI [of _ ?new])
    apply (intro conjI)
    apply (rule n(1))
    apply (rule n(2))
    apply (rule n(3))
    apply (rule last_ok)
    apply (rule st)
    apply (rule refl)
    apply (rule ev)
    apply (rule rcalls)
    apply (rule qev)
    apply (rule la)
    apply (rule kc)
    apply (rule q)
    apply (rule ca)
    apply (rule ru)
    apply (rule rw)
    apply (rule we)
    done
qed

theorem afterChange_writes_then_done_witness:
  "recorderSt finishRetried = \<lparr> failWrites = 0, failGet = False, wants = [] \<rparr>
   \<and> events finishRetried
       = [Logged (LogMonitorChanged ''K1'' TaskStatusStop),
          RecFinishTask (mkTask ''K1'' TaskStatusStop) (Some (ErrExternal ''write failed'')),
          RecFinishTask (mkTask ''K1'' TaskStatusStop) None,
          QueueDone (keyChange ''K1'')]
   \<and> recorderSt failingRun = \<lparr> failWrites = 2, failGet = False, wants = [] \<rparr>
   \<and> events failingRun
       = [Logged (LogMonitorChanged ''K1'' TaskStatusRunning),
          RecUpdateTask (mkTask ''K1'' TaskStatusRunning) (Some (ErrExternal ''write failed'')),
          RecUpdateTask (mkTask ''K1'' TaskStatusRunning) (Some (ErrExternal ''write failed'')),
          RecUpdateTask (mkTask ''K1'' TaskStatusRunning) (Some (ErrExternal ''write failed'')),
          Logged (LogUpdateTaskFailed ''K1'' (ErrExternal ''write failed'')),
          QueueDone (keyChange ''K1'')]"
proof -
  let ?e = "ErrExternal ''write failed''"
  let ?q = "emptyQueue\<lparr> inflight := [''K1''] \<rparr>"
  have stub: "recorderWrite stubRecorder t s = stubWrite s t" for t s
    by (simp add: recorderWrite_def stubRecorder_def)
  have step_fail: "stubWrite \<lparr> failWrites = Suc m, failGet = False, wants = [] \<rparr> t
                     = (Some ?e, \<lparr> failWrites = m, failGet = False, wants = [] \<rparr>)" for m t
    by (simp add: stubWrite_def)
  have step_ok: "stubWrite \<lparr> failWrites = 0, failGet = False, wants = [] \<rparr> t
                     = (None, \<lparr> failWrites = 0, failGet = False, wants = [] \<rparr>)" for t
    by (simp add: stubWrite_def)
  let ?t = "mkTask ''K1'' TaskStatusStop"
  let ?s = "\<lparr> failWrites = Suc 0, failGet = False, wants = [] \<rparr>"
  let ?i = "mkInfomer ?s [] ?q"
  have ts: "TaskKey ?t = ''K1''" "Status ?t = TaskStatusStop" by (simp_all add: mkTask_def)
  have si: "recorderSt ?i = ?s" "events ?i = []" by (simp_all add: mkInfomer_def)
  have sb: "stateBefore stubRecorder ?t ?s 0 = ?s"
      "stateBefore stubRecorder ?t ?s (Suc 0) = \<lparr> failWrites = 0, failGet = False, wants = [] \<rparr>"
      "stateBefore stubRecorder ?t ?s (Suc (Suc 0)) = \<lparr> failWrites = 0, failGet = False, wants = [] \<rparr>"
    by (simp_all add: stateBefore_def stub step_fail step_ok)
  have rs: "resultOf stubRecorder ?t ?s 0 = Some ?e"
      "resultOf stubRecorder ?t ?s (Suc 0) = None"
    by (simp_all add: resultOf_def sb stub step_fail step_ok)
  from afterChange_writes_then_done
    [where retries = 2 and rec = stubRecorder and cq = changeQueueImpl and t = ?t and i = ?i]
  obtain n new where n: "1 \<le> n" "n \<le> Suc 2"
      "\<forall>k. k < n - 1 \<longrightarrow> resultOf stubRecorder ?t (recorderSt ?i) k \<noteq> None"
      "resultOf stubRecorder ?t (recorderSt ?i) (n - 1) = None \<or> n = Suc 2"
      "recorderSt (afterChange 2 stubRecorder changeQueueImpl ?t ?i)
         = stateBefore stubRecorder ?t (recorderSt ?i) n"
      "new = [Logged (LogMonitorChanged (TaskKey ?t) (Status ?t))]
              @ map (\<lambda>k. writeEvent ?t (resultOf stubRecorder ?t (recorderSt ?i) k)) [0..<n]
              @ (case resultOf stubRecorder ?t (recorderSt ?i) (n - 1) of
                   None \<Rightarrow> []
                 | Some err \<Rightarrow> [Logged (LogUpdateTaskFailed (TaskKey ?t) err)])
              @ [QueueDone (keyChange (TaskKey ?t))]"
      "events (afterChange 2 stubRecorder changeQueueImpl ?t ?i) = events ?i @ new"
    by (elim exE conjE) (rule that)
  have n2: "n = Suc (Suc 0)"
  proof -
    from n(1,2) consider "n = Suc 0" | "n = Suc (Suc 0)" | "n = Suc (Suc (Suc 0))" by arith
    then show ?thesis
    proof cases
      case 1
      with n(4) rs show ?thesis by (simp add: si)
    next
      case 2
      then show ?thesis .
    next
      case 3
      with n(3) have "resultOf stubRecorder ?t (recorderSt ?i) (Suc 0) \<noteq> None" by simp
      with rs show ?thesis by (simp add: si)
    qed
  qed
  have A: "recorderSt finishRetried = \<lparr> failWrites = 0, failGet = False, wants = [] \<rparr>"
    using n(5) unfolding n2 si by (simp add: finishRetried_def sb)
  have up: "[0..<Suc (Suc 0)] = [0, Suc 0]" by (simp add: upt_rec)
  have B: "events finishRetried
       = [Logged (LogMonitorChanged ''K1'' TaskStatusStop),
          RecFinishTask ?t (Some ?e), RecFinishTask ?t None, QueueDone (keyChange ''K1'')]"
    using n(7) unfolding n(6) n2 si ts up
    by (simp add: finishRetried_def rs writeEvent_def IsFinalStatus_def ts)
  let ?u = "mkTask ''K1'' TaskStatusRunning"
  let ?s5 = "\<lparr> failWrites = 5, failGet = False, wants = [] \<rparr>"
  let ?j = "mkInfomer ?s5 [] ?q"
  have tu: "TaskKey ?u = ''K1''" "Status ?u = TaskStatusRunning" by (simp_all add: mkTask_def)
  have sj: "recorderSt ?j = ?s5" "events ?j = []" by (simp_all add: mkInfomer_def)
  have sb5: "stateBefore stubRecorder ?u ?s5 0 = ?s5"
      "stateBefore stubRecorder ?u ?s5 (Suc 0) = \<lparr> failWrites = 4, failGet = False, wants = [] \<rparr>"
      "stateBefore stubRecorder ?u ?s5 (Suc (Suc 0)) = \<lparr> failWrites = 3, failGet = False, wants = [] \<rparr>"
      "stateBefore stubRecorder ?u ?s5 (Suc (Suc (Suc 0))) = \<lparr> failWrites = 2, failGet = False, wants = [] \<rparr>"
    by (simp_all add: stateBefore_def stub stubWrite_def)
  have rs5: "resultOf stubRecorder ?u ?s5 0 = Some ?e"
      "resultOf stubRecorder ?u ?s5 (Suc 0) = Some ?e"
      "resultOf stubRecorder ?u ?s5 (Suc (Suc 0)) = Some ?e"
    by (simp_all add: resultOf_def sb5 stub stubWrite_def)
  from afterChange_writes_then_done
    [where retries = 2 and rec = stubRecorder and cq = changeQueueImpl and t = ?u and i = ?j]
  obtain m new' where m: "1 \<le> m" "m \<le> Suc 2"
      "resultOf stubRecorder ?u (recorderSt ?j) (m - 1) = None \<or> m = Suc 2"
      "recorderSt (afterChange 2 stubRecorder changeQueueImpl ?u ?j)
         = stateBefore stubRecorder ?u (recorderSt ?j) m"
      "new' = [Logged (LogMonitorChanged (TaskKey ?u) (Status ?u))]
              @ map (\<lambda>k. writeEvent ?u (resultOf stubRecorder ?u (recorderSt ?j) k)) [0..<m]
              @ (case resultOf stubRecorder ?u (recorderSt ?j) (m - 1) of
                   None \<Rightarrow> []
                 | Some err \<Rightarrow> [Logged (LogUpdateTaskFailed (TaskKey ?u) err)])
              @ [QueueDone (keyChange (TaskKey ?u))]"
      "events (afterChange 2 stubRecorder changeQueueImpl ?u ?j) = events ?j @ new'"
    by (elim exE conjE) (rule that)
  have m3: "m = Suc (Suc (Suc 0))"
  proof -
    from m(1,2) consider "m = Suc 0" | "m = Suc (Suc 0)" | "m = Suc (Suc (Suc 0))" by arith
    then show ?thesis
    proof cases
      case 1
      with m(3) rs5 show ?thesis by (simp add: sj)
    next
      case 2
      with m(3) rs5 show ?thesis by (simp add: sj)
    next
      case 3
      then show ?thesis .
    qed
  qed
  have C: "recorderSt failingRun = \<lparr> failWrites = 2, failGet = False, wants = [] \<rparr>"
    using m(4) unfolding m3 sj by (simp add: failingRun_def sb5)
  have up3: "[0..<Suc (Suc (Suc 0))] = [0, Suc 0, Suc (Suc 0)]" by (simp add: upt_rec)
  have D: "events failingRun
       = [Logged (LogMonitorChanged ''K1'' TaskStatusRunning),
          RecUpdateTask ?u (Some ?e), RecUpdateTask ?u (Some ?e), RecUpdateTask ?u (Some ?e),
          Logged (LogUpdateTaskFailed ''K1'' ?e), QueueDone (keyChange ''K1'')]"
    using m(6) unfolding m(5) m3 sj tu up3
    by (simp add: failingRun_def rs5 writeEvent_def IsFinalStatus_def tu)
  from A B C D show ?thesis by (intro conjI)
qed

text \<open>
  C1, as the code has it. \<^verbatim>\<open>Done\<close> is the last event of the callback and follows the
  writes: the events are the log line of the change, the write attempts with their
  results \<open>rs\<close> (at least one, at most \<open>retries + 1\<close>, all but the last failed), the log
  line of the error when the last attempt failed, and \<^verbatim>\<open>Done\<close>. Either the last attempt
  succeeded, or all \<open>retries + 1\<close> attempts were made and failed; \<^verbatim>\<open>Done\<close> is called in
  both cases.
\<close>

theorem afterChange_done_after_retry:
  "\<exists>rs. rs \<noteq> [] \<and> length rs \<le> Suc retries
      \<and> filter (\<lambda>r. r = None) (butlast rs) = []
      \<and> (last rs = None \<or> length rs = Suc retries)
      \<and> events (afterChange retries rec cq t i)
          = events i @ [Logged (LogMonitorChanged (TaskKey t) (Status t))]
              @ map (writeEvent t) rs
              @ (case last rs of None \<Rightarrow> [] | Some err \<Rightarrow> [Logged (LogUpdateTaskFailed (TaskKey t) err)])
              @ [QueueDone (keyChange (TaskKey t))]"
  using afterChange_effect [of retries rec cq t i] by blast

lemma failingRun_events:
  "events failingRun =
    [Logged (LogMonitorChanged ''K1'' TaskStatusRunning),
     RecUpdateTask (mkTask ''K1'' TaskStatusRunning) (Some (ErrExternal ''write failed'')),
     RecUpdateTask (mkTask ''K1'' TaskStatusRunning) (Some (ErrExternal ''write failed'')),
     RecUpdateTask (mkTask ''K1'' TaskStatusRunning) (Some (ErrExternal ''write failed'')),
     Logged (LogUpdateTaskFailed ''K1'' (ErrExternal ''write failed'')),
     QueueDone (keyChange ''K1'')]"
  by (simp add: failingRun_def afterChange_def mkInfomer_def emptyQueue_def mkTask_def zeroTask_def stubRecorder_def
      stubWrite_def writeStatus_def callUpdateTask_def callFinishTask_def callDone_def logLine_def
      IsFinalStatus_def numeral_2_eq_2)

theorem afterChange_done_after_retry_witness:
  "\<exists>rs. rs \<noteq> [] \<and> length rs \<le> Suc 2
      \<and> filter (\<lambda>r. r = None) (butlast rs) = []
      \<and> (last rs = None \<or> length rs = Suc 2)
      \<and> events failingRun
          = [Logged (LogMonitorChanged ''K1'' TaskStatusRunning)]
              @ map (writeEvent (mkTask ''K1'' TaskStatusRunning)) rs
              @ (case last rs of None \<Rightarrow> [] | Some err \<Rightarrow> [Logged (LogUpdateTaskFailed ''K1'' err)])
              @ [QueueDone (keyChange ''K1'')]"
proof -
  let ?t = "mkTask ''K1'' TaskStatusRunning"
  let ?i = "mkInfomer \<lparr> failWrites = 5, failGet = False, wants = [] \<rparr> []
              (emptyQueue\<lparr> inflight := [''K1''] \<rparr>)"
  from afterChange_done_after_retry
    [where retries = 2 and t = ?t and rec = stubRecorder and cq = changeQueueImpl and i = ?i]
  obtain rs where h: "rs \<noteq> []" "length rs \<le> Suc 2"
      "filter (\<lambda>r. r = None) (butlast rs) = []"
      "last rs = None \<or> length rs = Suc 2"
      "events (afterChange 2 stubRecorder changeQueueImpl ?t ?i)
          = events ?i @ [Logged (LogMonitorChanged (TaskKey ?t) (Status ?t))]
              @ map (writeEvent ?t) rs
              @ (case last rs of None \<Rightarrow> [] | Some err \<Rightarrow> [Logged (LogUpdateTaskFailed (TaskKey ?t) err)])
              @ [QueueDone (keyChange (TaskKey ?t))]"
    by blast
  have k: "TaskKey ?t = ''K1''" and st: "Status ?t = TaskStatusRunning"
    by (simp_all add: mkTask_def)
  have "events failingRun
          = [Logged (LogMonitorChanged ''K1'' TaskStatusRunning)]
              @ map (writeEvent ?t) rs
              @ (case last rs of None \<Rightarrow> [] | Some err \<Rightarrow> [Logged (LogUpdateTaskFailed ''K1'' err)])
              @ [QueueDone (keyChange ''K1'')]"
    using h(5) unfolding k st by (simp add: failingRun_def mkInfomer_def)
  with h(1-4) show ?thesis by blast
qed

text \<open>
  C1, as stated, fails: with a recorder whose writes all fail, the callback makes its
  three attempts, none of which succeeds, and then calls \<^verbatim>\<open>Done\<close> for the key, which
  leaves the queue.
\<close>

theorem done_after_failed_writes_counterexample:
  "QueueDone (keyChange ''K1'') \<in> set (events failingRun)
   \<and> filter isSuccessfulWrite (events failingRun) = []
   \<and> \<not> queueExist (changeQueueSt failingRun) (keyChange ''K1'')"
proof -
  have "changeQueueSt failingRun = emptyQueue"
    by (simp add: failingRun_def afterChange_def mkInfomer_def emptyQueue_def mkTask_def zeroTask_def stubRecorder_def
      stubWrite_def writeStatus_def callUpdateTask_def callFinishTask_def callDone_def logLine_def
      IsFinalStatus_def numeral_2_eq_2 changeQueueImpl_def queueDone_def keyChange_def)
  then show ?thesis
    by (simp add: failingRun_events queueExist_def emptyQueue_def)
qed

subsection \<open>Loading the pairs of a tick\<close>





lemma ListTasks_subset: "r \<in> set (ListTasks list keys) \<Longrightarrow> r \<in> set list"
  by (auto simp add: ListTasks_def split: if_splits)



lemma loadTaskPairsThreadSafe_filter:
  assumes "loadTaskPairs rec (fst (selectTaskKeys cq info i)) (snd (selectTaskKeys cq info i)) i = (Inr loaded, i')"
  shows "loadTaskPairsThreadSafe rec cq info i = (Inr (filter (\<lambda>p. \<not> pairAutoFinished p) loaded), i')"
proof -
  obtain wk rk where sel: "selectTaskKeys cq info i = (wk, rk)"
    by (cases "selectTaskKeys cq info i")
  with assms have "loadTaskPairs rec wk rk i = (Inr loaded, i')" by simp
  with sel show ?thesis
    by (simp add: loadTaskPairsThreadSafe_def filterFinished_eq)
qed

lemma callBatchGetWantTask_effect:
  "callBatchGetWantTask rec keys i = (res, i') \<Longrightarrow>
     res = fst (BatchGetWantTask rec (recorderSt i) keys)
     \<and> recorderSt i' = snd (BatchGetWantTask rec (recorderSt i) keys)
     \<and> events i' = events i @ [RecBatchGetWantTask keys (errorOf res)]
     \<and> changeQueueSt i' = changeQueueSt i
     \<and> running i' = running i \<and> indexerCache i' = indexerCache i"
  by (auto simp add: callBatchGetWantTask_def split: prod.splits)

lemma loadTaskPairs_error:
  assumes "BatchGetWantTask rec (recorderSt i) wk = (Inl err, r')"
  shows "loadTaskPairs rec wk rk i
           = (Inl err, i\<lparr> recorderSt := r', events := events i @ [RecBatchGetWantTask wk (Some err)] \<rparr>)"
  using assms by (simp add: loadTaskPairs_def callBatchGetWantTask_def errorOf_def)

lemma loadTaskPairsThreadSafe_error:
  assumes "BatchGetWantTask rec (recorderSt i) (fst (selectTaskKeys cq info i)) = (Inl err, r')"
  shows "loadTaskPairsThreadSafe rec cq info i
           = (Inl err, i\<lparr> recorderSt := r',
                 events := events i @ [RecBatchGetWantTask (fst (selectTaskKeys cq info i)) (Some err)] \<rparr>)"
proof -
  obtain wk rk where sel: "selectTaskKeys cq info i = (wk, rk)"
    by (cases "selectTaskKeys cq info i")
  with assms have "BatchGetWantTask rec (recorderSt i) wk = (Inl err, r')" by simp
  from loadTaskPairs_error [OF this, of rk] sel show ?thesis
    by (simp add: loadTaskPairsThreadSafe_def)
qed

lemma selectTaskKeys_real:
  "snd (selectTaskKeys cq info i)
     = filter (\<lambda>key. key \<notin> set (processingKeys cq (changeQueueSt i) (taskKeys info)))
         (if resync info then ListTaskKeys (indexerCache i) else taskKeys info)"
  by (simp add: selectTaskKeys_def Let_def)

lemma selectTaskKeys_want:
  "fst (selectTaskKeys cq info i)
     = filter (\<lambda>key. key \<notin> set (processingKeys cq (changeQueueSt i) (taskKeys info))) (taskKeys info)"
  by (simp add: selectTaskKeys_def Let_def)


lemmas eval_defs = selectTaskKeys_def processingKeys_def mkInfomer_def changeQueueImpl_def
        queueExist_def emptyQueue_def keyChange_def Let_def loadTaskPairs_def callBatchGetWantTask_def
        errorOf_def stubRecorder_def stubBatchGet_def mkTask_def zeroTask_def ListTasks_def ListTaskKeys_def
        KeyBy_def

lemmas eval_defs2 = eval_defs loadTaskPairsThreadSafe_def pairAutoFinished_def IsAutoFinished_def

text \<open>
  C7. When \<^verbatim>\<open>BatchGetWantTask\<close> fails for the want keys of the tick, the tick returns without
  a panic; its events are the failed call and the line logging the error, and nothing
  else: no change is added to the queue, no write of the recorder is made, the queue
  and the cache are as before. The loop goes on with the triggers that follow.
\<close>

theorem BatchGetWantTask_error_skips_tick:
  assumes "BatchGetWantTask rec (recorderSt i) (fst (selectTaskKeys cq info i)) = (Inl err, r')"
  shows "\<exists>i'. enqueueTick gct rec cq info i = Inr i'
           \<and> events i' = events i @ [RecBatchGetWantTask (fst (selectTaskKeys cq info i)) (Some err),
                                      Logged (LogLoadTaskPairsFailed err)]
           \<and> changeQueueSt i' = changeQueueSt i
           \<and> indexerCache i' = indexerCache i
           \<and> recorderSt i' = r'
           \<and> enqueueIfTaskChange gct rec cq (info # ch) i = enqueueIfTaskChange gct rec cq ch i'"
proof -
  let ?i' = "logLine (LogLoadTaskPairsFailed err)
               (i\<lparr> recorderSt := r',
                   events := events i @ [RecBatchGetWantTask (fst (selectTaskKeys cq info i)) (Some err)] \<rparr>)"
  have t: "enqueueTick gct rec cq info i = Inr ?i'"
    by (simp add: enqueueTick_def loadTaskPairsThreadSafe_error [OF assms])
  moreover have "enqueueIfTaskChange gct rec cq (info # ch) i = enqueueIfTaskChange gct rec cq ch ?i'"
    by (simp add: t)
  ultimately show ?thesis
    by (intro exI [of _ ?i']) (simp add: logLine_def)
qed

theorem BatchGetWantTask_error_skips_tick_witness:
  "BatchGetWantTask stubRecorder (recorderSt getFails)
       (fst (selectTaskKeys changeQueueImpl \<lparr> taskKeys = [''K1''], resync = True \<rparr> getFails))
     = (Inl (ErrExternal ''get failed''), recorderSt getFails)
   \<and> enqueueTick GetChangeType stubRecorder changeQueueImpl \<lparr> taskKeys = [''K1''], resync = True \<rparr> getFails
     = Inr (getFails\<lparr> events := [RecBatchGetWantTask [''K1''] (Some (ErrExternal ''get failed'')),
                                   Logged (LogLoadTaskPairsFailed (ErrExternal ''get failed''))] \<rparr>)"
proof -
  let ?info = "\<lparr> taskKeys = [''K1''], resync = True \<rparr>"
  have sel: "fst (selectTaskKeys changeQueueImpl ?info getFails) = [''K1'']"
    by (simp add: selectTaskKeys_def processingKeys_def getFails_def mkInfomer_def changeQueueImpl_def
        queueExist_def emptyQueue_def keyChange_def Let_def)
  have h: "BatchGetWantTask stubRecorder (recorderSt getFails)
       (fst (selectTaskKeys changeQueueImpl ?info getFails))
     = (Inl (ErrExternal ''get failed''), recorderSt getFails)"
    by (simp add: stubRecorder_def stubBatchGet_def getFails_def mkInfomer_def)
  from BatchGetWantTask_error_skips_tick [OF h, of GetChangeType "[]"]
  obtain i' where i': "enqueueTick GetChangeType stubRecorder changeQueueImpl ?info getFails = Inr i'"
    "events i' = events getFails @ [RecBatchGetWantTask (fst (selectTaskKeys changeQueueImpl ?info getFails))
                                      (Some (ErrExternal ''get failed'')),
                                      Logged (LogLoadTaskPairsFailed (ErrExternal ''get failed''))]"
    "changeQueueSt i' = changeQueueSt getFails" "indexerCache i' = indexerCache getFails"
    "recorderSt i' = recorderSt getFails"
    by blast
  have run: "running i' = running getFails"
    using i'(1) by (auto simp add: enqueueTick_def loadTaskPairsThreadSafe_error [OF h] logLine_def)
  have "i' = getFails\<lparr> events := [RecBatchGetWantTask [''K1''] (Some (ErrExternal ''get failed'')),
                                   Logged (LogLoadTaskPairsFailed (ErrExternal ''get failed''))] \<rparr>"
    using i'(2-5) run sel by (simp add: getFails_def mkInfomer_def)
  with i'(1) h show ?thesis by simp
qed

subsection \<open>Auto-finished pairs\<close>

lemma pairAutoFinished_iff:
  "pairAutoFinished p
     = ((\<exists>w. want p = Some w \<and> Status w \<in> {TaskStatusSuccess, TaskStatusFailed})
        \<or> (\<exists>r. real p = Some r \<and> Status r \<in> {TaskStatusSuccess, TaskStatusFailed}))"
  by (auto simp add: pairAutoFinished_def IsAutoFinished_def split: option.splits)

text \<open>
  C3. Of the pairs \<^verbatim>\<open>loadTaskPairs\<close> forms in a tick, \<^verbatim>\<open>loadTaskPairsThreadSafe\<close> returns
  exactly those that are not auto-finished, in order; a pair is auto-finished when its
  want is present with the status Success or Failed, or its real is present with the
  status Success or Failed. \<^verbatim>\<open>diff\<close> runs on the pairs returned: every change it emits is
  the change of a loaded pair that is not auto-finished, so that no change is emitted for
  an excluded pair.
\<close>

theorem autoFinished_pairs_excluded:
  assumes "loadTaskPairs rec (fst (selectTaskKeys cq info i)) (snd (selectTaskKeys cq info i)) i
             = (Inr loaded, i')"
  shows "loadTaskPairsThreadSafe rec cq info i = (Inr (filter (\<lambda>p. \<not> pairAutoFinished p) loaded), i')
     \<and> (\<forall>p. pairAutoFinished p
             = ((\<exists>w. want p = Some w \<and> Status w \<in> {TaskStatusSuccess, TaskStatusFailed})
                \<or> (\<exists>r. real p = Some r \<and> Status r \<in> {TaskStatusSuccess, TaskStatusFailed})))
     \<and> (\<forall>changes logs c.
           diff gct (filter (\<lambda>p. \<not> pairAutoFinished p) loaded) = Inr (changes, logs)
           \<longrightarrow> c \<in> set changes
           \<longrightarrow> (\<exists>p. p \<in> set loaded \<and> \<not> pairAutoFinished p \<and> emits gct p c))"
proof (intro conjI allI impI)
  show "loadTaskPairsThreadSafe rec cq info i = (Inr (filter (\<lambda>p. \<not> pairAutoFinished p) loaded), i')"
    using assms by (rule loadTaskPairsThreadSafe_filter)
next
  fix p
  show "pairAutoFinished p
     = ((\<exists>w. want p = Some w \<and> Status w \<in> {TaskStatusSuccess, TaskStatusFailed})
        \<or> (\<exists>r. real p = Some r \<and> Status r \<in> {TaskStatusSuccess, TaskStatusFailed}))"
    by (rule pairAutoFinished_iff)
next
  fix changes logs c
  assume d: "diff gct (filter (\<lambda>p. \<not> pairAutoFinished p) loaded) = Inr (changes, logs)"
    and c: "c \<in> set changes"
  from d have "diffLoop gct (filter (\<lambda>p. \<not> pairAutoFinished p) loaded) [] [] = Inr (changes, logs)"
    by (simp add: diff_def)
  from diffLoop_sound [OF this c]
  show "\<exists>p. p \<in> set loaded \<and> \<not> pairAutoFinished p \<and> emits gct p c" by auto
qed

theorem autoFinished_pairs_excluded_witness:
  "loadTaskPairs stubRecorder
      (fst (selectTaskKeys changeQueueImpl \<lparr> taskKeys = [''K1'', ''K2''], resync = False \<rparr> finishedExample))
      (snd (selectTaskKeys changeQueueImpl \<lparr> taskKeys = [''K1'', ''K2''], resync = False \<rparr> finishedExample))
      finishedExample
     = (Inr [\<lparr> want = Some (mkTask ''K1'' TaskStatusWaitRunning), real = None \<rparr>,
             \<lparr> want = Some (mkTask ''K2'' TaskStatusWaitStop), real = Some (mkTask ''K2'' TaskStatusSuccess) \<rparr>],
        finishedExample\<lparr> events := [RecBatchGetWantTask [''K1'', ''K2''] None] \<rparr>)
   \<and> loadTaskPairsThreadSafe stubRecorder changeQueueImpl
        \<lparr> taskKeys = [''K1'', ''K2''], resync = False \<rparr> finishedExample
     = (Inr [\<lparr> want = Some (mkTask ''K1'' TaskStatusWaitRunning), real = None \<rparr>],
        finishedExample\<lparr> events := [RecBatchGetWantTask [''K1'', ''K2''] None] \<rparr>)"
proof -
  let ?info = "\<lparr> taskKeys = [''K1'', ''K2''], resync = False \<rparr>"
  let ?p1 = "\<lparr> want = Some (mkTask ''K1'' TaskStatusWaitRunning), real = None \<rparr>"
  let ?p2 = "\<lparr> want = Some (mkTask ''K2'' TaskStatusWaitStop), real = Some (mkTask ''K2'' TaskStatusSuccess) \<rparr>"
  have h: "loadTaskPairs stubRecorder
      (fst (selectTaskKeys changeQueueImpl ?info finishedExample))
      (snd (selectTaskKeys changeQueueImpl ?info finishedExample))
      finishedExample
     = (Inr [?p1, ?p2], finishedExample\<lparr> events := [RecBatchGetWantTask [''K1'', ''K2''] None] \<rparr>)"
    by (simp add: finishedExample_def eval_defs)
  have f: "filter (\<lambda>p. \<not> pairAutoFinished p) [?p1, ?p2] = [?p1]"
    by (simp add: pairAutoFinished_def IsAutoFinished_def mkTask_def)
  from autoFinished_pairs_excluded [OF h, of GetChangeType]
  have g: "loadTaskPairsThreadSafe stubRecorder changeQueueImpl ?info finishedExample
     = (Inr (filter (\<lambda>p. \<not> pairAutoFinished p) [?p1, ?p2]),
        finishedExample\<lparr> events := [RecBatchGetWantTask [''K1'', ''K2''] None] \<rparr>)"
    by blast
  show ?thesis using h g unfolding f by (rule conjI)
qed

subsection \<open>Keys with an outstanding change\<close>

text \<open>
  C2. The claim: every key for which \<^verbatim>\<open>Exist\<close> holds at the start of the tick is kept out
  of the want keys and of the real keys that are loaded and diffed, also a key that
  comes from \<^verbatim>\<open>ListTaskKeys()\<close> on a resync. The code at two inputs. On a resync tick for
  the key K1, the cached task K2 has a pending change and is loaded all the same, paired
  with a nil want: only the keys of the trigger are checked with \<^verbatim>\<open>Exist\<close>. On a watch
  tick for the key K1, whose change is in flight, removing K1 leaves both key lists
  empty, and \<^verbatim>\<open>ListTasks\<close> answers the whole cache for an empty list: the real task K1 is
  loaded, paired with a nil want.
\<close>

theorem processing_key_reloaded:
  "Exist changeQueueImpl (changeQueueSt orphanPending) (keyChange ''K2'')
   \<and> loadTaskPairsThreadSafe stubRecorder changeQueueImpl resyncInfo orphanPending
       = (Inr [\<lparr> want = Some (mkTask ''K1'' TaskStatusWaitRunning), real = None \<rparr>,
               \<lparr> want = None, real = Some (mkTask ''K2'' TaskStatusRunning) \<rparr>],
          orphanPending\<lparr> events := [RecBatchGetWantTask [''K1''] None] \<rparr>)
   \<and> Exist changeQueueImpl (changeQueueSt pauseInFlight) (keyChange ''K1'')
   \<and> loadTaskPairsThreadSafe stubRecorder changeQueueImpl watchInfo pauseInFlight
       = (Inr [\<lparr> want = None, real = Some (mkTask ''K1'' TaskStatusRunning) \<rparr>],
          pauseInFlight\<lparr> events := [RecBatchGetWantTask [] None] \<rparr>)"
  by (simp add: orphanPending_def pauseInFlight_def resyncInfo_def watchInfo_def stopK2_def eval_defs2)

subsection \<open>The real tasks of a tick\<close>













subsection \<open>The running flag\<close>

lemma callAdd_running: "callAdd cq c i = (exist, i') \<Longrightarrow> running i' = running i"
  by (auto simp add: callAdd_def split: prod.splits)

lemma enqueueChanges_running: "running (enqueueChanges cq cs i) = running i"
proof (induction cs arbitrary: i)
  case Nil
  show ?case by simp
next
  case (Cons c cs)
  obtain exist i1 where a: "callAdd cq c i = (exist, i1)"
    by (cases "callAdd cq c i")
  from callAdd_running [OF a] have "running i1 = running i" .
  with a show ?case
    by (simp add: Cons.IH logLine_effect)
qed

lemma fold_logLine_running: "running (fold logLine logs i) = running i"
  by (induction logs arbitrary: i) (simp_all add: logLine_effect)

lemma loadTaskPairsThreadSafe_running:
  assumes "loadTaskPairsThreadSafe rec cq info i = (res, i')"
  shows "running i' = running i"
proof -
  obtain wk rk where sel: "selectTaskKeys cq info i = (wk, rk)"
    by (cases "selectTaskKeys cq info i")
  obtain r1 i1 where b: "callBatchGetWantTask rec wk i = (r1, i1)"
    by (cases "callBatchGetWantTask rec wk i")
  from callBatchGetWantTask_effect [OF b] have r: "running i1 = running i" by simp
  from assms sel b have "i' = i1"
    by (cases r1) (simp_all add: loadTaskPairsThreadSafe_def loadTaskPairs_def Let_def)
  with r show ?thesis by simp
qed

lemma enqueueTick_running:
  assumes "enqueueTick gct rec cq info i = Inr i'"
  shows "running i' = running i"
proof -
  obtain res i1 where l: "loadTaskPairsThreadSafe rec cq info i = (res, i1)"
    by (cases "loadTaskPairsThreadSafe rec cq info i")
  note r1 = loadTaskPairsThreadSafe_running [OF l]
  show ?thesis
  proof (cases res)
    case (Inl err)
    with l assms have "i' = logLine (LogLoadTaskPairsFailed err) i1"
      by (simp add: enqueueTick_def)
    with r1 show ?thesis by (simp add: logLine_effect)
  next
    case (Inr taskPairs)
    with l assms obtain changes logs where d: "diff gct taskPairs = Inr (changes, logs)"
      by (cases "diff gct taskPairs") (auto simp add: enqueueTick_def)
    obtain changes' i2 where h: "handleException rec changes (fold logLine logs i1) = (changes', i2)"
      by (cases "handleException rec changes (fold logLine logs i1)")
    then have "handleExceptionLoop rec changes [] (fold logLine logs i1) = (changes', i2)"
      by (simp add: handleException_def)
    from handleExceptionLoop_effect [OF this]
    have r2: "running i2 = running (fold logLine logs i1)" by simp
    from Inr l d h assms have "i' = enqueueChanges cq changes' i2"
      by (simp add: enqueueTick_def)
    with r1 r2 show ?thesis
      by (simp add: enqueueChanges_running fold_logLine_running)
  qed
qed

lemma processTask_running: "running (processTask retries rec cq c i) = running i"
proof (cases c)
  case None
  then show ?thesis by (simp add: processTask_def logLine_effect)
next
  case (Some t)
  from afterChange_effect [of retries rec cq t "i\<lparr> indexerCache := cacheSet (indexerCache i) (TaskKey t) t \<rparr>"]
  have "running (afterChange retries rec cq t (i\<lparr> indexerCache := cacheSet (indexerCache i) (TaskKey t) t \<rparr>))
          = running i"
    by auto
  with Some show ?thesis by (simp add: processTask_def)
qed

lemma runSteps_running:
  "runSteps gct retries rec cq steps i = Inr i' \<Longrightarrow> running i' = running i"
proof (induction steps arbitrary: i)
  case Nil
  then show ?case by simp
next
  case (Cons s steps)
  show ?case
  proof (cases s)
    case (TriggerStep info)
    with Cons.prems obtain i1 where t: "enqueueTick gct rec cq info i = Inr i1"
      and r: "runSteps gct retries rec cq steps i1 = Inr i'"
      by (cases "enqueueTick gct rec cq info i") simp_all
    from Cons.IH [OF r] enqueueTick_running [OF t] show ?thesis by simp
  next
    case (ChangeStep c)
    with Cons.prems have "runSteps gct retries rec cq steps (processTask retries rec cq c i) = Inr i'"
      by simp
    from Cons.IH [OF this] show ?thesis by (simp add: processTask_running)
  qed
qed

lemma Run_sets_running:
  assumes "Run gct retries rec cq triggerErr steps i = Inr (res, i')"
  shows "running i'"
proof (cases "running i")
  case True
  with assms show ?thesis by (simp add: Run_def)
next
  case notrun: False
  show ?thesis
  proof (cases triggerErr)
    case (Some err)
    with notrun assms show ?thesis by (auto simp add: Run_def)
  next
    case None
    with notrun assms have "runSteps gct retries rec cq steps (i\<lparr> running := True \<rparr>) = Inr i'"
      by (cases "runSteps gct retries rec cq steps (i\<lparr> running := True \<rparr>)") (simp_all add: Run_def)
    from runSteps_running [OF this] show ?thesis by simp
  qed
qed

lemma Run_when_running:
  "running i \<Longrightarrow> Run gct retries rec cq triggerErr steps i = Inr (Some ErrAlreadyRunning, i)"
  by (simp add: Run_def)

lemma RunAll_when_running:
  "running i \<Longrightarrow>
     RunAll gct retries rec cq calls i = Inr (replicate (length calls) (Some ErrAlreadyRunning), i)"
proof (induction calls)
  case Nil
  show ?case by simp
next
  case (Cons call calls)
  obtain triggerErr steps where c: "call = (triggerErr, steps)" by (cases call)
  from Cons show ?case by (simp add: c Run_when_running)
qed

text \<open>
  C10. After a call of \<^verbatim>\<open>Run\<close> has returned, whatever it returned, the flag \<^verbatim>\<open>running\<close> is
  set; a call that found it set returned the error "infomer already running" and changed
  nothing; and every later call of \<^verbatim>\<open>Run\<close> on the informer, whatever its trigger and
  steps, returns that error and changes nothing. So at most one call ever passes the
  compare-and-swap.
\<close>

theorem Run_proceeds_at_most_once:
  assumes "Run gct retries rec cq triggerErr steps i = Inr (res, i')"
  shows "running i'
     \<and> (running i \<longrightarrow> res = Some ErrAlreadyRunning \<and> i' = i)
     \<and> RunAll gct retries rec cq calls i' = Inr (replicate (length calls) (Some ErrAlreadyRunning), i')"
proof -
  from assms have r: "running i'" by (rule Run_sets_running)
  moreover have "running i \<longrightarrow> res = Some ErrAlreadyRunning \<and> i' = i"
    using assms by (auto simp add: Run_def)
  moreover from r have "RunAll gct retries rec cq calls i'
      = Inr (replicate (length calls) (Some ErrAlreadyRunning), i')"
    by (rule RunAll_when_running)
  ultimately show ?thesis by blast
qed

theorem Run_proceeds_at_most_once_witness:
  "Run GetChangeType 2 stubRecorder changeQueueImpl None [] freshInfomer
     = Inr (None, freshInfomer\<lparr> running := True \<rparr>)
   \<and> running (freshInfomer\<lparr> running := True \<rparr>)
   \<and> RunAll GetChangeType 2 stubRecorder changeQueueImpl
        [(None, [ChangeStep (Some (mkTask ''K1'' TaskStatusRunning))]), (None, [])]
        (freshInfomer\<lparr> running := True \<rparr>)
     = Inr ([Some ErrAlreadyRunning, Some ErrAlreadyRunning], freshInfomer\<lparr> running := True \<rparr>)"
proof -
  have h: "Run GetChangeType 2 stubRecorder changeQueueImpl None [] freshInfomer
     = Inr (None, freshInfomer\<lparr> running := True \<rparr>)"
    by (simp add: Run_def freshInfomer_def mkInfomer_def)
  from Run_proceeds_at_most_once [OF h,
      of "[(None, [ChangeStep (Some (mkTask ''K1'' TaskStatusRunning))]), (None, [])]"] h
  show ?thesis by (simp add: numeral_2_eq_2)
qed

subsection \<open>What the differ and the key selection do guarantee\<close>

text \<open>
  X1. A pair whose want is present and whose statuses have no change type is logged with
  the key of the want task and skipped: the loop of \<^verbatim>\<open>diff\<close> goes on with the pairs that
  follow, the changes untouched.
\<close>

theorem diff_skips_unknown_pair_with_want:
  assumes "want pair = Some w" and "realStatusOf pair \<noteq> wantStatusOf pair"
    and "gct (realStatusOf pair) (wantStatusOf pair) = Inl err"
  shows "diffLoop gct (pair # rest) changes logs
           = diffLoop gct rest changes
               (logs @ [LogDiffFailed (TaskKey w) (realStatusOf pair) (wantStatusOf pair) err])"
  using assms by simp

theorem diff_skips_unknown_pair_with_want_witness:
  "diff GetChangeType
     [\<lparr> want = Some (mkTask ''K1'' TaskStatusRunning), real = None \<rparr>,
      \<lparr> want = Some (mkTask ''K3'' TaskStatusWaitRunning), real = None \<rparr>]
    = Inr ([\<lparr> TaskKeyC = ''K3'', TaskTypeC = [], ChangeTypeC = ChangeCreate,
              TaskC = Some (mkTask ''K3'' TaskStatusWaitRunning) \<rparr>],
           [LogDiffFailed ''K1'' TaskStatusNotExist TaskStatusRunning
              (ErrUnknownChangeType TaskStatusNotExist TaskStatusRunning)])"
proof -
  let ?p = "\<lparr> want = Some (mkTask ''K1'' TaskStatusRunning), real = None \<rparr>"
  let ?q = "\<lparr> want = Some (mkTask ''K3'' TaskStatusWaitRunning), real = None \<rparr>"
  have w: "want ?p = Some (mkTask ''K1'' TaskStatusRunning)" by simp
  have s: "realStatusOf ?p = TaskStatusNotExist" "wantStatusOf ?p = TaskStatusRunning"
    by (simp_all add: realStatusOf_def wantStatusOf_def mkTask_def)
  have n: "realStatusOf ?p \<noteq> wantStatusOf ?p" by (simp add: s)
  have g: "GetChangeType (realStatusOf ?p) (wantStatusOf ?p)
             = Inl (ErrUnknownChangeType TaskStatusNotExist TaskStatusRunning)"
    by (simp add: s GetChangeType_def changeTable_def)
  have k: "TaskKey (mkTask ''K1'' TaskStatusRunning) = ''K1''" by (simp add: mkTask_def)
  have "diffLoop GetChangeType (?p # [?q]) [] []
          = diffLoop GetChangeType [?q] []
              ([] @ [LogDiffFailed (TaskKey (mkTask ''K1'' TaskStatusRunning)) (realStatusOf ?p)
                       (wantStatusOf ?p) (ErrUnknownChangeType TaskStatusNotExist TaskStatusRunning)])"
    by (rule diff_skips_unknown_pair_with_want [where gct = GetChangeType, OF w n g])
  also have "\<dots> = Inr ([\<lparr> TaskKeyC = ''K3'', TaskTypeC = [], ChangeTypeC = ChangeCreate,
              TaskC = Some (mkTask ''K3'' TaskStatusWaitRunning) \<rparr>],
           [LogDiffFailed ''K1'' TaskStatusNotExist TaskStatusRunning
              (ErrUnknownChangeType TaskStatusNotExist TaskStatusRunning)])"
    unfolding s k
    by (simp add: realStatusOf_def wantStatusOf_def changeTaskOf_def mkTask_def zeroTask_def
        GetChangeType_def changeTable_def)
  finally show ?thesis by (simp add: diff_def)
qed

text \<open>
  X2. A key of the trigger for which \<^verbatim>\<open>Exist\<close> holds at the start of the tick is in
  neither of the key lists \<^verbatim>\<open>loadTaskPairsThreadSafe\<close> hands to \<^verbatim>\<open>loadTaskPairs\<close>.
\<close>

theorem trigger_processing_keys_excluded:
  assumes "key \<in> set (taskKeys info)" and "Exist cq (changeQueueSt i) (keyChange key)"
  shows "key \<notin> set (fst (selectTaskKeys cq info i)) \<and> key \<notin> set (snd (selectTaskKeys cq info i))"
proof -
  from assms have "key \<in> set (processingKeys cq (changeQueueSt i) (taskKeys info))"
    by (simp add: processingKeys_def)
  then show ?thesis
    by (simp add: selectTaskKeys_want selectTaskKeys_real)
qed

theorem trigger_processing_keys_excluded_witness:
  "''K1'' \<in> set (taskKeys resyncInfo)
   \<and> Exist changeQueueImpl (changeQueueSt pauseInFlightK2) (keyChange ''K1'')
   \<and> selectTaskKeys changeQueueImpl resyncInfo pauseInFlightK2 = ([], [''K2''])
   \<and> ''K1'' \<notin> set (fst (selectTaskKeys changeQueueImpl resyncInfo pauseInFlightK2))
   \<and> ''K1'' \<notin> set (snd (selectTaskKeys changeQueueImpl resyncInfo pauseInFlightK2))"
proof -
  have a: "''K1'' \<in> set (taskKeys resyncInfo)" by (simp add: resyncInfo_def)
  have b: "Exist changeQueueImpl (changeQueueSt pauseInFlightK2) (keyChange ''K1'')"
    by (simp add: pauseInFlightK2_def eval_defs)
  have c: "selectTaskKeys changeQueueImpl resyncInfo pauseInFlightK2 = ([], [''K2''])"
    by (simp add: pauseInFlightK2_def resyncInfo_def eval_defs)
  from trigger_processing_keys_excluded [OF a b] a b c show ?thesis by blast
qed

end
